theory Spec2Isabelle
  imports Complex_Main "HOL-Library.AList"
begin

section \<open>Data model\<close>

text \<open>
  A Python \<open>str\<close> is held as the string of its UTF-8 bytes. Exceptions that the
  program raises, re-raises or lets through are values.
\<close>

datatype error =
    TypeError | KeyError | IndexError | ValueError | OSError
  | RequestException | JSONDecodeError
  | TimeoutException | ElementNotVisibleException | WebDriverException
  | FirstPaperDifferentError

text \<open>
  An entry of a \<open>references\<close> or \<open>citations\<close> list is a dictionary that is read
  at the key \<open>paperId\<close> only; \<open>None\<close> stands for an entry without that key.
\<close>

datatype stub = Stub (stub_paperId: "string option")

text \<open>
  A paper dictionary, as the semantic scholar API returns it and as
  \<open>scrap_paper_by_title\<close> extends it. Each field is \<open>None\<close> when the key is absent
  from the dictionary, so the empty dictionary is the record whose fields are all
  \<open>None\<close>.
\<close>

record paper =
  paperId :: "string option"
  title :: "string option"
  references :: "stub list option"
  citations :: "stub list option"
  abstract :: "string option"
  topics :: "(string \<times> string) list option"
  bibtex_citation :: "string option"

definition empty_dict :: paper where
  "empty_dict = \<lparr>paperId = None, title = None, references = None, citations = None,
     abstract = None, topics = None, bibtex_citation = None\<rparr>"

datatype relationship = References | Citations

text \<open>The fields of \<open>SemanticScholarScrapper\<close> set by \<open>__init__\<close>.\<close>

record scrapper =
  site_url :: string
  timeout :: rat
  time_between_api_call :: rat
  headless :: bool

text \<open>
  What the program does to the outside, in the order it does it: a call of
  \<open>requests.get\<close>, a call of \<open>time.sleep\<close>, a file written by \<open>json.dump\<close>.
\<close>

datatype event = HttpGet string | Sleep rat | WriteFile string paper

text \<open>
  The outside as the program sees it: what \<open>requests.get\<close> answers for a URL (an
  exception, or a response whose body decodes to a paper dictionary or does not decode),
  whether \<open>open(name, 'w')\<close> succeeds, and the Unicode tables of the Python
  interpreter that runs the program: whether one character is in the class \<open>\w\<close> of
  \<open>re\<close>, and what \<open>str.lower\<close> returns for a \<open>str\<close>.
\<close>

datatype response = Response (body: "paper option")

record world =
  http_get :: "string \<Rightarrow> error + response"
  file_open :: "string \<Rightarrow> error option"
  word_char :: "string \<Rightarrow> bool"
  str_lower :: "string \<Rightarrow> string"

text \<open>
  The mutable objects of one run of \<open>get_related_papers\<close>: the dictionary
  \<open>papers_dict\<close> (insertion ordered, as Python's), the deque and the set, and the
  events so far.
\<close>

record crawl =
  papers_dict :: "(string \<times> paper) list"
  paper_id_queue :: "string list"
  paper_visited_set :: "string set"
  trace :: "event list"

type_synonym outcome = "error option \<times> crawl"

section \<open>The fetcher\<close>

definition api_url :: string where
  "api_url = ''https://api.semanticscholar.org/v1/paper/''"

definition json_url :: "string \<Rightarrow> string" where
  "json_url paper_id = api_url @ paper_id @ ''?include_unknown_references=true''"

text \<open>
  \<open>_get_paper_json_by_id\<close>: the request, whose exception is re-raised at once; then the
  sleep (\<open>time.sleep\<close> raises \<open>ValueError\<close> on a negative length); then the decoding of
  the body. The result comes with the events of the call.
\<close>

definition get_paper_json_by_id ::
    "scrapper \<Rightarrow> world \<Rightarrow> string \<Rightarrow> event list \<times> (error + paper)" where
  "get_paper_json_by_id self w paper_id =
     (case http_get w (json_url paper_id) of
        Inl e \<Rightarrow> ([HttpGet (json_url paper_id)], Inl e)
      | Inr request \<Rightarrow>
          if time_between_api_call self < 0
          then ([HttpGet (json_url paper_id)], Inl ValueError)
          else ([HttpGet (json_url paper_id), Sleep (time_between_api_call self)],
                case body request of None \<Rightarrow> Inl JSONDecodeError | Some p \<Rightarrow> Inr p))"

section \<open>The persistence sink\<close>

text \<open>
  A Python \<open>str\<close> is a sequence of Unicode characters, and the model holds it as the
  string of its UTF-8 bytes. Comparing two of them, concatenating them and looking for a
  slash work on the bytes as they do on the characters. Where the program classifies or
  counts characters, the bytes are first cut into characters: the first byte of a
  character tells how many bytes it has.
\<close>

definition width :: "char \<Rightarrow> nat" where
  "width c =
     (let n = (of_char c :: nat)
      in if n < 192 then 1 else if n < 224 then 2 else if n < 240 then 3 else 4)"

fun characters :: "string \<Rightarrow> string list" where
  "characters [] = []"
| "characters (c # cs) =
     (c # take (width c - 1) cs) # characters (drop (width c - 1) cs)"

text \<open>\<open>s[:n]\<close>: the first \<open>n\<close> characters of \<open>s\<close>.\<close>

definition first_characters :: "nat \<Rightarrow> string \<Rightarrow> string" where
  "first_characters n s = concat (take n (characters s))"

text \<open>
  \<open>re.findall('\w+', title)\<close>, on the characters of the title: the scan starts at the
  left; where a word character stands, the longest run of word characters from there is
  one match and the scan goes on behind it; any other character is passed over. Which
  characters are word characters is for the tables of the interpreter to say.
\<close>

function findall_run :: "(string \<Rightarrow> bool) \<Rightarrow> string list \<Rightarrow> string list" where
  "findall_run word [] = []"
| "findall_run word (c # cs) =
     (if word c
      then concat (takeWhile word (c # cs)) # findall_run word (dropWhile word cs)
      else findall_run word cs)"
  by pat_completeness auto
termination
  by (relation "measure (\<lambda>(word, cs). length cs)")
     (auto simp: length_dropWhile_le less_Suc_eq_le)

definition findall_word :: "world \<Rightarrow> string \<Rightarrow> string list" where
  "findall_word w s = findall_run (word_char w) (characters s)"

text \<open>\<open>sep.join(parts)\<close>.\<close>

fun join :: "string \<Rightarrow> string list \<Rightarrow> string" where
  "join sep [] = []"
| "join sep [x] = x"
| "join sep (x # y # ys) = x @ sep @ join sep (y # ys)"

text \<open>\<open>os.path.join(a, b)\<close> of \<open>posixpath\<close>, for two arguments.\<close>

definition path_join :: "string \<Rightarrow> string \<Rightarrow> string" where
  "path_join a b =
     (if b \<noteq> [] \<and> hd b = CHR ''/'' then b
      else if a = [] \<or> last a = CHR ''/'' then a @ b
      else a @ ''/'' @ b)"

definition max_no_chars :: nat where
  "max_no_chars = 50"

text \<open>
  \<open>create_json_file_name\<close>; reading the title of a dictionary that has none raises
  \<open>KeyError\<close>.
\<close>

definition slug :: "world \<Rightarrow> string \<Rightarrow> string" where
  "slug w t = first_characters max_no_chars (str_lower w (join ''_'' (findall_word w t)))"

definition create_json_file_name :: "world \<Rightarrow> paper \<Rightarrow> string \<Rightarrow> error + string" where
  "create_json_file_name w paper_dict out_dir_name =
     (case title paper_dict of
        None \<Rightarrow> Inl KeyError
      | Some t \<Rightarrow> Inr (path_join out_dir_name (slug w t) @ ''.json''))"

text \<open>
  \<open>save_json\<close>: the name, then \<open>open\<close> for writing, then the dump of the whole
  dictionary into the file.
\<close>

definition save_json :: "world \<Rightarrow> paper \<Rightarrow> string \<Rightarrow> crawl \<Rightarrow> outcome" where
  "save_json w paper_dict out_dir_name st =
     (case create_json_file_name w paper_dict out_dir_name of
        Inl e \<Rightarrow> (Some e, st)
      | Inr output_file_name \<Rightarrow>
          (case file_open w output_file_name of
             Some e \<Rightarrow> (Some e, st)
           | None \<Rightarrow> (None, st\<lparr>trace := trace st @ [WriteFile output_file_name paper_dict]\<rparr>)))"

text \<open>
  The base name as the specification words it: the runs of word characters of the
  title, joined by underscores, put into lower case, and of that the first fifty
  characters. The runs are the maximal ones; they are collected left to right, with the
  characters of the run in progress as an accumulator.
\<close>

fun word_runs :: "(string \<Rightarrow> bool) \<Rightarrow> string list \<Rightarrow> string list \<Rightarrow> string list" where
  "word_runs word acc [] = (if acc = [] then [] else [concat acc])"
| "word_runs word acc (c # cs) =
     (if word c then word_runs word (acc @ [c]) cs
      else (if acc = [] then [] else [concat acc]) @ word_runs word [] cs)"

definition spec_base_name :: "world \<Rightarrow> string \<Rightarrow> string" where
  "spec_base_name w t =
     first_characters 50
       (str_lower w (join ''_'' (word_runs (word_char w) [] (characters t))))"

text \<open>
  On ASCII characters the tables of every interpreter are these: the class \<open>\w\<close>
  holds the letters, the digits and the underscore, and \<open>str.lower\<close> turns each
  capital letter of a \<open>str\<close> of ASCII characters into its small letter.
\<close>

definition is_ascii :: "char \<Rightarrow> bool" where
  "is_ascii c = ((of_char c :: nat) < 128)"

definition ascii_word :: "char \<Rightarrow> bool" where
  "ascii_word c =
     (let n = (of_char c :: nat)
      in (48 \<le> n \<and> n \<le> 57) \<or> (65 \<le> n \<and> n \<le> 90) \<or> n = 95 \<or> (97 \<le> n \<and> n \<le> 122))"

definition ascii_lower_char :: "char \<Rightarrow> char" where
  "ascii_lower_char c =
     (let n = (of_char c :: nat) in if 65 \<le> n \<and> n \<le> 90 then char_of (n + 32) else c)"

section \<open>Expanding one paper\<close>

text \<open>\<open>papers_dict[paper_id][relationship_type]\<close>, for a paper already looked up.\<close>

definition subscript_relationship :: "paper \<Rightarrow> relationship \<Rightarrow> error + stub list" where
  "subscript_relationship p rel =
     (case (case rel of References \<Rightarrow> references p | Citations \<Rightarrow> citations p) of
        None \<Rightarrow> Inl KeyError
      | Some stubs \<Rightarrow> Inr stubs)"

text \<open>
  The list comprehension of \<open>_retrieve_related_papers\<close>: the \<open>paperId\<close> of every
  entry, the empty ones left out; an entry without the key raises \<open>KeyError\<close>.
\<close>

fun related_papers_id_list :: "stub list \<Rightarrow> error + string list" where
  "related_papers_id_list [] = Inr []"
| "related_papers_id_list (paper_dict # rest) =
     (case stub_paperId paper_dict of
        None \<Rightarrow> Inl KeyError
      | Some i \<Rightarrow>
          (case related_papers_id_list rest of
             Inl e \<Rightarrow> Inl e
           | Inr ids \<Rightarrow> Inr (if i \<noteq> [] then i # ids else ids)))"

text \<open>
  One pass of the \<open>for\<close> loop of \<open>_retrieve_related_papers\<close>. An identifier that
  is a key of \<open>papers_dict\<close> is passed over. Any other is fetched, stored, saved when
  there is an output directory, and appended to the queue unless it is in the visited
  set. An exception leaves the state as it is at the moment of the raise.
\<close>

definition retrieve_one ::
    "scrapper \<Rightarrow> world \<Rightarrow> string option \<Rightarrow> string \<Rightarrow> crawl \<Rightarrow> outcome" where
  "retrieve_one self w out_dir_name related_paper_id st =
     (if related_paper_id \<in> fst ` set (papers_dict st)
      then (None, st)
      else
        (case get_paper_json_by_id self w related_paper_id of
           (evs, Inl e) \<Rightarrow> (Some e, st\<lparr>trace := trace st @ evs\<rparr>)
         | (evs, Inr related_paper_dict) \<Rightarrow>
             (case (case out_dir_name of
                      None \<Rightarrow> (None, st\<lparr>papers_dict :=
                                  AList.update related_paper_id related_paper_dict (papers_dict st),
                                trace := trace st @ evs\<rparr>)
                    | Some d \<Rightarrow> save_json w related_paper_dict d
                                 (st\<lparr>papers_dict :=
                                  AList.update related_paper_id related_paper_dict (papers_dict st),
                                trace := trace st @ evs\<rparr>)) of
                (Some e, st') \<Rightarrow> (Some e, st')
              | (None, st') \<Rightarrow>
                  (None,
                   if related_paper_id \<notin> paper_visited_set st'
                   then st'\<lparr>paper_id_queue := paper_id_queue st' @ [related_paper_id]\<rparr>
                   else st'))))"

text \<open>The \<open>for\<close> loop over the list; an exception ends it where it is raised.\<close>

fun retrieve_loop ::
    "scrapper \<Rightarrow> world \<Rightarrow> string option \<Rightarrow> string list \<Rightarrow> crawl \<Rightarrow> outcome" where
  "retrieve_loop self w out_dir_name [] st = (None, st)"
| "retrieve_loop self w out_dir_name (related_paper_id # rest) st =
     (case retrieve_one self w out_dir_name related_paper_id st of
        (Some e, st') \<Rightarrow> (Some e, st')
      | (None, st') \<Rightarrow> retrieve_loop self w out_dir_name rest st')"

text \<open>
  The body of \<open>_retrieve_related_papers\<close> once its parameters are bound; the
  dictionary, the visited set and the queue it works on are those of the crawl.
\<close>

definition retrieve_related_papers ::
    "scrapper \<Rightarrow> world \<Rightarrow> string \<Rightarrow> relationship \<Rightarrow> string option \<Rightarrow> crawl \<Rightarrow> outcome" where
  "retrieve_related_papers self w paper_id relationship_type out_dir_name st =
     (case map_of (papers_dict st) paper_id of
        None \<Rightarrow> (Some KeyError, st)
      | Some p \<Rightarrow>
          (case subscript_relationship p relationship_type of
             Inl e \<Rightarrow> (Some e, st)
           | Inr stubs \<Rightarrow>
               (case related_papers_id_list stubs of
                  Inl e \<Rightarrow> (Some e, st)
                | Inr ids \<Rightarrow> retrieve_loop self w out_dir_name ids st)))"

section \<open>The traversal\<close>

text \<open>
  The values that \<open>get_related_papers\<close> passes in a call: \<open>None\<close>, a string, or
  one of the three mutable objects of the crawl, passed by reference.
\<close>

datatype pyval = PyNone | PyStr string | PyPapersDict | PyVisitedSet | PyIdQueue

text \<open>
  A call of the method \<open>_retrieve_related_papers\<close> with a list of positional arguments
  (\<open>self\<close> apart). Its parameters are \<open>papers_dict\<close>, \<open>paper_id\<close>,
  \<open>relationship_type\<close>, \<open>paper_visited_set\<close>, \<open>paper_id_queue\<close>, all required, and
  \<open>out_dir_name\<close> with the default \<open>None\<close>. Python binds the arguments to the
  parameters by position before the body runs, and raises \<open>TypeError\<close> when a
  required parameter gets no argument or an argument is left over.

  The body is modelled for the arguments it is written for: the crawl's dictionary, two
  strings of which the second is \<open>'references'\<close> or \<open>'citations'\<close>, the crawl's set
  and deque, and a directory name or \<open>None\<close>. No call in the program binds all
  parameters to anything else, and \<open>bind_retrieve_related_papers\<close> has no value
  there.
\<close>

definition required_parameters :: nat where
  "required_parameters = 5"

definition all_parameters :: nat where
  "all_parameters = 6"

fun relationship_of :: "string \<Rightarrow> relationship option" where
  "relationship_of s =
     (if s = ''references'' then Some References
      else if s = ''citations'' then Some Citations else None)"

fun out_dir_of :: "pyval \<Rightarrow> string option option" where
  "out_dir_of PyNone = Some None"
| "out_dir_of (PyStr d) = Some (Some d)"
| "out_dir_of v = None"

definition bind_retrieve_related_papers ::
    "pyval list \<Rightarrow> (string \<times> relationship \<times> string option) option" where
  "bind_retrieve_related_papers args =
     (case args of
        [PyPapersDict, PyStr paper_id, PyStr rel, PyVisitedSet, PyIdQueue, out] \<Rightarrow>
          (case (relationship_of rel, out_dir_of out) of
             (Some relationship_type, Some out_dir_name) \<Rightarrow>
               Some (paper_id, relationship_type, out_dir_name)
           | _ \<Rightarrow> None)
      | _ \<Rightarrow> None)"

definition call_retrieve_related_papers ::
    "scrapper \<Rightarrow> world \<Rightarrow> pyval list \<Rightarrow> crawl \<Rightarrow> outcome option" where
  "call_retrieve_related_papers self w args st =
     (if length args < required_parameters \<or> all_parameters < length args
      then Some (Some TypeError, st)
      else
        (case bind_retrieve_related_papers
                (if length args < all_parameters then args @ [PyNone] else args) of
           None \<Rightarrow> None
         | Some (paper_id, relationship_type, out_dir_name) \<Rightarrow>
             Some (retrieve_related_papers self w paper_id relationship_type out_dir_name st)))"

text \<open>
  The \<open>while\<close> loop of \<open>get_related_papers\<close>. \<open>out\<close> is the value of
  \<open>out_dir_name\<close>. The result is \<open>None\<close> when the loop does not return.
\<close>

partial_function (option) get_related_papers_loop ::
    "scrapper \<Rightarrow> world \<Rightarrow> pyval \<Rightarrow> crawl \<Rightarrow> outcome option" where
  "get_related_papers_loop self w out st =
     (case paper_id_queue st of
        [] \<Rightarrow> Some (None, st)
      | current_paper_id # rest \<Rightarrow>
          if current_paper_id \<in> paper_visited_set st
          then get_related_papers_loop self w out (st\<lparr>paper_id_queue := rest\<rparr>)
          else
            (case call_retrieve_related_papers self w
                    [PyPapersDict, PyStr current_paper_id, PyStr ''references'', out]
                    (st\<lparr>paper_id_queue := rest,
                       paper_visited_set := insert current_paper_id (paper_visited_set st)\<rparr>) of
               None \<Rightarrow> None
             | Some (Some e, st') \<Rightarrow> Some (Some e, st')
             | Some (None, st') \<Rightarrow>
                 (case call_retrieve_related_papers self w
                         [PyPapersDict, PyStr current_paper_id, PyStr ''citations'', out] st' of
                    None \<Rightarrow> None
                  | Some (Some e, st'') \<Rightarrow> Some (Some e, st'')
                  | Some (None, st'') \<Rightarrow> get_related_papers_loop self w out st'')))"

fun pyval_of :: "string option \<Rightarrow> pyval" where
  "pyval_of None = PyNone"
| "pyval_of (Some s) = PyStr s"

text \<open>
  \<open>get_related_papers\<close>: the queue starts as the keys of \<open>papers_dict\<close> in their
  order, the visited set starts empty.
\<close>

definition get_related_papers ::
    "scrapper \<Rightarrow> world \<Rightarrow> (string \<times> paper) list \<Rightarrow> string option \<Rightarrow> outcome option" where
  "get_related_papers self w papers out_dir_name =
     get_related_papers_loop self w (pyval_of out_dir_name)
       \<lparr>papers_dict = papers, paper_id_queue = map fst papers,
        paper_visited_set = {}, trace = []\<rparr>"

section \<open>Resolving one title\<close>

text \<open>
  What the web driver answers during one run of \<open>scrap_paper_by_title\<close>, call by
  call; \<open>Some e\<close> and \<open>Inl e\<close> are the exception \<open>e\<close> raised by the call.
  \<open>levenshtein\<close> is the function of that name of the \<open>distance\<close> package.
\<close>

datatype locator = ByTagName string | ByName string | ByClassName string

record h1_element =
  data_selenium_selector :: "string option"
  h1_text :: string

record browser =
  chrome :: "error option"
  close :: "error option"
  driver_get :: "string \<Rightarrow> error option"
  wait_until_present :: "locator \<Rightarrow> error option"
  send_search_keys :: "string \<Rightarrow> error option"
  click_first_link :: "error option"
  h1_elements :: "error + h1_element list"
  click_more :: "error option"
  abstract_text :: "error + string"
  topic_links :: "error + (string \<times> string) list"
  bibtex_text :: "error + string"
  current_url :: "error + string"
  levenshtein :: "string \<Rightarrow> string \<Rightarrow> nat"

text \<open>
  \<open>FirstPaperDifferentError(*args)\<close>: \<open>__init__\<close> takes \<open>expression\<close> and
  \<open>message\<close>, both required, so any other number of arguments raises
  \<open>TypeError\<close> in place of the exception under construction. The statement
  \<open>raise FirstPaperDifferentError\<close> names the class alone and Python instantiates it
  with no argument.
\<close>

definition new_FirstPaperDifferentError :: "pyval list \<Rightarrow> error" where
  "new_FirstPaperDifferentError args =
     (if length args = 2 then FirstPaperDifferentError else TypeError)"

definition start_browser :: "browser \<Rightarrow> error option" where
  "start_browser b = chrome b"

definition close_browser :: "browser \<Rightarrow> error option" where
  "close_browser b = close b"

definition search_paper_by_name :: "scrapper \<Rightarrow> browser \<Rightarrow> string \<Rightarrow> error option" where
  "search_paper_by_name self b paper_title =
     (case driver_get b (site_url self) of
        Some e \<Rightarrow> Some e
      | None \<Rightarrow>
          (case wait_until_present b (ByName ''q'') of
             Some e \<Rightarrow> Some e
           | None \<Rightarrow> send_search_keys b paper_title))"

definition open_first_link_in_search_page :: "browser \<Rightarrow> error option" where
  "open_first_link_in_search_page b =
     (case wait_until_present b (ByClassName ''search-result-title'') of
        Some e \<Rightarrow> Some e
      | None \<Rightarrow> click_first_link b)"

definition check_paper_page :: "browser \<Rightarrow> string \<Rightarrow> error option" where
  "check_paper_page b paper_title =
     (case wait_until_present b (ByTagName ''h1'') of
        Some e \<Rightarrow> Some e
      | None \<Rightarrow>
          (case h1_elements b of
             Inl e \<Rightarrow> Some e
           | Inr h1_list \<Rightarrow>
               (case filter (\<lambda>h1. data_selenium_selector h1 = Some ''paper-detail-title'')
                       h1_list of
                  [] \<Rightarrow> Some IndexError
                | h1 # _ \<Rightarrow>
                    if \<not> (0 \<le> levenshtein b paper_title (h1_text h1)
                           \<and> levenshtein b paper_title (h1_text h1) \<le> 10)
                    then Some (new_FirstPaperDifferentError [])
                    else None)))"

definition get_abstract_in_paper_page :: "browser \<Rightarrow> error + string" where
  "get_abstract_in_paper_page b =
     (case wait_until_present b (ByClassName ''mod-clickable'') of
        Some e \<Rightarrow> Inl e
      | None \<Rightarrow>
          (case click_more b of
             None \<Rightarrow> abstract_text b
           | Some e \<Rightarrow> if e = ElementNotVisibleException then abstract_text b else Inl e))"

definition get_topics_in_paper_page :: "browser \<Rightarrow> error + (string \<times> string) list" where
  "get_topics_in_paper_page b =
     (case (case wait_until_present b (ByClassName ''entities'') of
              Some e \<Rightarrow> Inl e
            | None \<Rightarrow>
                (case topic_links b of
                   Inl e \<Rightarrow> Inl e
                 | Inr links \<Rightarrow> Inr (foldl (\<lambda>d (k, v). AList.update k v d) [] links))) of
        Inl e \<Rightarrow> if e = TimeoutException then Inr [] else Inl e
      | Inr topic_dict \<Rightarrow> Inr topic_dict)"

definition get_bibtex_citation :: "browser \<Rightarrow> error + string" where
  "get_bibtex_citation b =
     (case wait_until_present b (ByClassName ''formatted-citation--style-bibtex'') of
        Some e \<Rightarrow> Inl e
      | None \<Rightarrow> bibtex_text b)"

text \<open>
  \<open>_get_paper_id_from_current_url\<close>: the part of the URL behind its last slash, and
  the first match in it of \<open>\w+(?=\?*)\<close>, whose lookahead for any number of
  question marks holds everywhere.
\<close>

definition last_segment :: "string \<Rightarrow> string" where
  "last_segment u = rev (takeWhile (\<lambda>c. c \<noteq> CHR ''/'') (rev u))"

definition get_paper_id_from_current_url :: "world \<Rightarrow> browser \<Rightarrow> error + string" where
  "get_paper_id_from_current_url w b =
     (case current_url b of
        Inl e \<Rightarrow> Inl e
      | Inr u \<Rightarrow>
          (case findall_word w (last_segment u) of
             [] \<Rightarrow> Inl IndexError
           | m # _ \<Rightarrow> Inr m))"

text \<open>
  The statements of the \<open>try\<close> block of \<open>scrap_paper_by_title\<close>: the exception that
  ends the block, if any, and \<open>attributes_dict\<close> as it is at that moment.
\<close>

definition scrap_try_block ::
    "scrapper \<Rightarrow> browser \<Rightarrow> world \<Rightarrow> string \<Rightarrow> bool \<Rightarrow> error option \<times> paper" where
  "scrap_try_block self b w paper_title call_browser =
     (case search_paper_by_name self b paper_title of
        Some e \<Rightarrow> (Some e, empty_dict)
      | None \<Rightarrow>
     (case open_first_link_in_search_page b of
        Some e \<Rightarrow> (Some e, empty_dict)
      | None \<Rightarrow>
     (case check_paper_page b paper_title of
        Some e \<Rightarrow> (Some e, empty_dict)
      | None \<Rightarrow>
     (case get_abstract_in_paper_page b of
        Inl e \<Rightarrow> (Some e, empty_dict)
      | Inr abstract_v \<Rightarrow>
     (case get_topics_in_paper_page b of
        Inl e \<Rightarrow> (Some e, empty_dict)
      | Inr topic_dict \<Rightarrow>
     (case get_bibtex_citation b of
        Inl e \<Rightarrow> (Some e, empty_dict)
      | Inr bibtex_v \<Rightarrow>
     (case get_paper_id_from_current_url w b of
        Inl e \<Rightarrow> (Some e, empty_dict)
      | Inr paper_id \<Rightarrow>
     (case snd (get_paper_json_by_id self w paper_id) of
        Inl e \<Rightarrow> (Some e, empty_dict)
      | Inr attributes_dict \<Rightarrow>
          (if call_browser then close_browser b else None,
           attributes_dict\<lparr>abstract := Some abstract_v, topics := Some topic_dict,
             bibtex_citation := Some bibtex_v\<rparr>)))))))))"

text \<open>
  The \<open>try\<close> statement with its handler: \<open>except FirstPaperDifferentError\<close>
  closes the browser, which may raise in its turn; any other exception stays in flight.
\<close>

definition scrap_try_except ::
    "scrapper \<Rightarrow> browser \<Rightarrow> world \<Rightarrow> string \<Rightarrow> bool \<Rightarrow> error option \<times> paper" where
  "scrap_try_except self b w paper_title call_browser =
     (case scrap_try_block self b w paper_title call_browser of
        (in_flight, attributes_dict) \<Rightarrow>
          (if in_flight = Some FirstPaperDifferentError then close_browser b else in_flight,
           attributes_dict))"

text \<open>
  \<open>scrap_paper_by_title\<close>. The browser is started before the \<open>try\<close> statement.
  The \<open>finally\<close> clause returns \<open>attributes_dict\<close>, and a \<open>return\<close> there drops
  the exception the \<open>try\<close> statement has left in flight. \<open>Inl e\<close> is the exception
  \<open>e\<close> reaching the caller.
\<close>

definition scrap_paper_by_title ::
    "scrapper \<Rightarrow> browser \<Rightarrow> world \<Rightarrow> string \<Rightarrow> bool \<Rightarrow> error + paper" where
  "scrap_paper_by_title self b w paper_title call_browser =
     (case (if call_browser then start_browser b else None) of
        Some e \<Rightarrow> Inl e
      | None \<Rightarrow> Inr (snd (scrap_try_except self b w paper_title call_browser)))"

section \<open>Observations on a run\<close>

text \<open>The URLs requested in a trace, in order, and how often a paper was requested.\<close>

fun fetched :: "event list \<Rightarrow> string list" where
  "fetched [] = []"
| "fetched (HttpGet u # evs) = u # fetched evs"
| "fetched (e # evs) = fetched evs"

definition fetch_count :: "event list \<Rightarrow> string \<Rightarrow> nat" where
  "fetch_count evs paper_id = count_list (fetched evs) (json_url paper_id)"

text \<open>The files written in a trace, in order.\<close>

fun written :: "event list \<Rightarrow> (string \<times> paper) list" where
  "written [] = []"
| "written (WriteFile n p # evs) = (n, p) # written evs"
| "written (e # evs) = written evs"

text \<open>
  What a step has added to the trace and to the queue, for a step that only appends to
  them.
\<close>

definition new_events :: "crawl \<Rightarrow> crawl \<Rightarrow> event list" where
  "new_events st st' = drop (length (trace st)) (trace st')"

definition enqueued :: "crawl \<Rightarrow> crawl \<Rightarrow> string list" where
  "enqueued st st' = drop (length (paper_id_queue st)) (paper_id_queue st')"

text \<open>
  The gate on fetching: every request so far was for a key of \<open>papers_dict\<close>, and no
  URL was requested twice.
\<close>

definition fetch_gate :: "crawl \<Rightarrow> bool" where
  "fetch_gate st =
     (distinct (fetched (trace st))
      \<and> set (fetched (trace st)) \<subseteq> json_url ` fst ` set (papers_dict st))"


text \<open>
  The identifiers a paper points at: the \<open>paperId\<close> values of its references, then
  of its citations, the empty ones left out.
\<close>

definition edge_targets :: "paper \<Rightarrow> string list" where
  "edge_targets p =
     filter (\<lambda>i. i \<noteq> [])
       (List.map_filter stub_paperId
          ((case references p of None \<Rightarrow> [] | Some xs \<Rightarrow> xs)
           @ (case citations p of None \<Rightarrow> [] | Some xs \<Rightarrow> xs)))"

section \<open>Fixtures\<close>

text \<open>The scrapper with the default arguments of \<open>__init__\<close>.\<close>

definition default_scrapper :: scrapper where
  "default_scrapper =
     \<lparr>site_url = ''https://www.semanticscholar.org/'', timeout = 5,
      time_between_api_call = 1 / 2, headless = True\<rparr>"

text \<open>A paper dictionary with an identifier, a title and its two edge lists.\<close>

definition paper_with :: "string \<Rightarrow> string \<Rightarrow> string list \<Rightarrow> string list \<Rightarrow> paper" where
  "paper_with i t refs cits =
     \<lparr>paperId = Some i, title = Some t,
      references = Some (map (\<lambda>r. Stub (Some r)) refs),
      citations = Some (map (\<lambda>c. Stub (Some c)) cits),
      abstract = None, topics = None, bibtex_citation = None\<rparr>"

text \<open>
  Tables for the fixtures, whose titles are ASCII: they are Python's on ASCII
  characters, and no other character is taken for a word character or changed.
\<close>

fun ascii_only_word :: "string \<Rightarrow> bool" where
  "ascii_only_word [c] = ascii_word c"
| "ascii_only_word s = False"

text \<open>
  Tables that know two letters more, as Python's do: the small e with an acute accent
  (the bytes C3 A9) and the capital I with a dot above (the bytes C4 B0) are word
  characters, and that capital in lower case is two characters, the small i and the
  combining dot above (the bytes CC 87).
\<close>

definition e_acute :: string where
  "e_acute = [CHR 0xC3, CHR 0xA9]"

definition capital_I_dotted :: string where
  "capital_I_dotted = [CHR 0xC4, CHR 0xB0]"

definition combining_dot_above :: string where
  "combining_dot_above = [CHR 0xCC, CHR 0x87]"

definition accented_word :: "string \<Rightarrow> bool" where
  "accented_word ch = (ascii_only_word ch \<or> ch = e_acute \<or> ch = capital_I_dotted)"

definition accented_lower :: "string \<Rightarrow> string" where
  "accented_lower s =
     concat (map (\<lambda>ch. if ch = capital_I_dotted then CHR ''i'' # combining_dot_above
                        else map ascii_lower_char ch)
               (characters s))"

definition accented :: world where
  "accented =
     \<lparr>http_get = (\<lambda>u. Inl RequestException), file_open = (\<lambda>n. None),
      word_char = accented_word, str_lower = accented_lower\<rparr>"

text \<open>
  A repository that answers the request for each listed identifier with its paper and
  fails on any other request; every file can be written; the tables are those of the
  fixtures.
\<close>

definition repository :: "(string \<times> paper) list \<Rightarrow> world" where
  "repository papers =
     \<lparr>http_get = (\<lambda>u. case map_of (map (\<lambda>(i, p). (json_url i, p)) papers) u of
                        None \<Rightarrow> Inl RequestException
                      | Some p \<Rightarrow> Inr (Response (Some p))),
      file_open = (\<lambda>n. None),
      word_char = ascii_only_word, str_lower = map ascii_lower_char\<rparr>"

text \<open>The diamond: \<open>A\<close> refers to \<open>B\<close> and \<open>C\<close>; \<open>B\<close> is cited by \<open>A\<close> and \<open>D\<close>.\<close>

definition paper_A :: paper where
  "paper_A = paper_with ''A'' ''Paper A'' [''B'', ''C''] []"

definition paper_B :: paper where
  "paper_B = paper_with ''B'' ''Paper B'' [] [''A'', ''D'']"

definition paper_C :: paper where
  "paper_C = paper_with ''C'' ''Paper C'' [] []"

definition paper_D :: paper where
  "paper_D = paper_with ''D'' ''Paper D'' [] []"

definition diamond :: world where
  "diamond = repository [(''A'', paper_A), (''B'', paper_B), (''C'', paper_C), (''D'', paper_D)]"

text \<open>A chain of two papers: \<open>P\<close> refers to \<open>Q\<close>, and one list entry of \<open>P\<close> is empty.\<close>

definition paper_P :: paper where
  "paper_P = paper_with ''P'' ''Paper P'' [[], ''Q''] []"

definition paper_Q :: paper where
  "paper_Q = paper_with ''Q'' ''Paper Q'' [] [''P'']"

definition chain :: world where
  "chain = repository [(''P'', paper_P), (''Q'', paper_Q)]"

text \<open>
  The crawl at the moment \<open>P\<close>, its only seed, has been taken off the queue and put
  into the visited set.
\<close>

definition visiting_P :: crawl where
  "visiting_P =
     \<lparr>papers_dict = [(''P'', paper_P)], paper_id_queue = [],
      paper_visited_set = {''P''}, trace = []\<rparr>"

text \<open>
  The same crawl after \<open>Q\<close> was fetched from the chain, stored, saved under the
  directory \<open>out\<close> and appended to the queue.
\<close>

definition after_Q :: crawl where
  "after_Q =
     \<lparr>papers_dict = [(''P'', paper_P), (''Q'', paper_Q)], paper_id_queue = [''Q''],
      paper_visited_set = {''P''},
      trace = [HttpGet (json_url ''Q''), Sleep (1 / 2),
               WriteFile ''out/paper_q.json'' paper_Q]\<rparr>"

text \<open>
  The crawl on the diamond at the moment \<open>A\<close>, its only seed, has been taken off the
  queue and put into the visited set.
\<close>

definition visiting_A :: crawl where
  "visiting_A =
     \<lparr>papers_dict = [(''A'', paper_A)], paper_id_queue = [],
      paper_visited_set = {''A''}, trace = []\<rparr>"



text \<open>
  A browser in which every call succeeds and the page shown has the given title, and the
  same browser when Chrome cannot be started. The distance of two titles is taken to be
  0 when they are equal and 11 otherwise.
\<close>

definition browser_showing :: "string \<Rightarrow> browser" where
  "browser_showing page_title =
     \<lparr>chrome = None, close = None, driver_get = (\<lambda>u. None),
      wait_until_present = (\<lambda>l. None), send_search_keys = (\<lambda>k. None),
      click_first_link = None,
      h1_elements = Inr [\<lparr>data_selenium_selector = Some ''paper-detail-title'',
                          h1_text = page_title\<rparr>],
      click_more = None, abstract_text = Inr ''An abstract.'',
      topic_links = Inr [], bibtex_text = Inr ''@article{}'',
      current_url = Inr ''https://www.semanticscholar.org/paper/Paper-P/P'',
      levenshtein = (\<lambda>a b. if a = b then 0 else 11)\<rparr>"

definition browser_without_chrome :: browser where
  "browser_without_chrome = (browser_showing ''Paper P'')\<lparr>chrome := Some WebDriverException\<rparr>"

section \<open>Properties\<close>

subsection \<open>The call made by the traversal\<close>

lemma call_four_arguments:
  "call_retrieve_related_papers self w [a, b, c, d] st = Some (Some TypeError, st)"
  by (simp add: call_retrieve_related_papers_def required_parameters_def)

lemma loop_all_visited:
  "paper_id_queue st = q \<Longrightarrow> set q \<subseteq> paper_visited_set st \<Longrightarrow>
   get_related_papers_loop self w out st = Some (None, st\<lparr>paper_id_queue := []\<rparr>)"
proof (induction q arbitrary: st)
  case Nil
  then show ?case
    by (subst get_related_papers_loop.simps) simp
next
  case (Cons i q)
  have "get_related_papers_loop self w out st =
        get_related_papers_loop self w out (st\<lparr>paper_id_queue := q\<rparr>)"
    using Cons.prems by (subst get_related_papers_loop.simps) simp
  also have "\<dots> = Some (None, st\<lparr>paper_id_queue := q, paper_id_queue := []\<rparr>)"
    using Cons.prems by (intro Cons.IH) simp_all
  finally show ?case by simp
qed

lemma loop_first_unvisited:
  "paper_id_queue st = pre @ i # rest \<Longrightarrow> set pre \<subseteq> paper_visited_set st \<Longrightarrow>
   i \<notin> paper_visited_set st \<Longrightarrow>
   get_related_papers_loop self w out st =
     Some (Some TypeError,
           st\<lparr>paper_id_queue := rest, paper_visited_set := insert i (paper_visited_set st)\<rparr>)"
proof (induction pre arbitrary: st)
  case Nil
  then show ?case
    by (subst get_related_papers_loop.simps) (simp add: call_four_arguments)
next
  case (Cons j pre)
  have "get_related_papers_loop self w out st =
        get_related_papers_loop self w out (st\<lparr>paper_id_queue := pre @ i # rest\<rparr>)"
    using Cons.prems by (subst get_related_papers_loop.simps) simp
  also have "\<dots> = Some (Some TypeError,
       st\<lparr>paper_id_queue := pre @ i # rest, paper_id_queue := rest,
          paper_visited_set :=
            insert i (paper_visited_set (st\<lparr>paper_id_queue := pre @ i # rest\<rparr>))\<rparr>)"
    using Cons.prems by (intro Cons.IH) simp_all
  finally show ?case by simp
qed

lemma get_related_papers_nonempty:
  "get_related_papers self w ((i, p) # papers) out_dir_name =
     Some (Some TypeError,
       \<lparr>papers_dict = (i, p) # papers, paper_id_queue = map fst papers,
        paper_visited_set = {i}, trace = []\<rparr>)"
  unfolding get_related_papers_def
  by (simp add: loop_first_unvisited [where pre = "[]"])

lemma get_related_papers_empty:
  "get_related_papers self w [] out_dir_name =
     Some (None, \<lparr>papers_dict = [], paper_id_queue = [], paper_visited_set = {}, trace = []\<rparr>)"
  unfolding get_related_papers_def
  by (simp add: loop_all_visited)

text \<open>
  C3. Whenever \<open>papers_dict\<close> has at least one key, \<open>get_related_papers\<close> ends with a
  \<open>TypeError\<close>: the first key is taken off the queue and put into the visited set, and
  the call of \<open>_retrieve_related_papers\<close> with four arguments fails before its body
  runs. At that moment nothing was requested or written, the dictionary is as it was
  given, and the queue holds the remaining keys and nothing else.
\<close>

theorem get_related_papers_type_error:
  "papers \<noteq> [] \<Longrightarrow>
   call_retrieve_related_papers self w
      [PyPapersDict, PyStr current_paper_id, PyStr ''references'', pyval_of out_dir_name] st
     = Some (Some TypeError, st)
   \<and> get_related_papers self w papers out_dir_name =
       Some (Some TypeError,
         \<lparr>papers_dict = papers, paper_id_queue = tl (map fst papers),
          paper_visited_set = {fst (hd papers)}, trace = []\<rparr>)"
  by (cases papers) (auto simp: call_four_arguments get_related_papers_nonempty)

theorem get_related_papers_type_error_witness:
  "[(''P'', paper_P), (''Q'', paper_Q)] \<noteq> []
   \<and> get_related_papers default_scrapper chain [(''P'', paper_P), (''Q'', paper_Q)] None =
       Some (Some TypeError,
         \<lparr>papers_dict = [(''P'', paper_P), (''Q'', paper_Q)], paper_id_queue = [''Q''],
          paper_visited_set = {''P''}, trace = []\<rparr>)"
  using get_related_papers_type_error
          [of "[(''P'', paper_P), (''Q'', paper_Q)]" default_scrapper chain "''P''" None]
  by simp

subsection \<open>File names\<close>

lemma word_runs_findall:
  "word_runs word acc cs =
     (if acc = [] then findall_run word cs
      else concat (acc @ takeWhile word cs) # findall_run word (dropWhile word cs))"
proof (induction cs arbitrary: acc)
  case Nil then show ?case by simp
next
  case (Cons c cs)
  show ?case
  proof (cases "word c")
    case True
    then show ?thesis using Cons.IH [of "acc @ [c]"] by simp
  next
    case False
    then show ?thesis using Cons.IH [of "[]"] by simp
  qed
qed

lemma slug_spec: "slug w t = spec_base_name w t"
  by (simp add: slug_def spec_base_name_def max_no_chars_def findall_word_def
        word_runs_findall)

lemma characters_concat_take:
  "characters (concat (take n (characters s))) = take n (characters s)"
proof (induction s arbitrary: n rule: characters.induct)
  case 1
  then show ?case by simp
next
  case (2 c cs)
  show ?case
  proof (cases n)
    case 0
    then show ?thesis by simp
  next
    case (Suc m)
    let ?k = "width c - 1"
    let ?X = "concat (take m (characters (drop ?k cs)))"
    have t: "take ?k (take ?k cs @ ?X) = take ?k cs"
      and d: "drop ?k (take ?k cs @ ?X) = ?X"
    proof -
      show "take ?k (take ?k cs @ ?X) = take ?k cs"
      proof (cases "?k \<le> length cs")
        case True then show ?thesis by simp
      next
        case False then show ?thesis by simp
      qed
      show "drop ?k (take ?k cs @ ?X) = ?X"
      proof (cases "?k \<le> length cs")
        case True then show ?thesis by simp
      next
        case False then show ?thesis by simp
      qed
    qed
    have "characters (concat (take n (characters (c # cs))))
          = characters (c # (take ?k cs @ ?X))"
      by (simp add: Suc)
    also have "\<dots> = (c # take ?k cs) # characters ?X"
      by (simp only: characters.simps t d)
    also have "\<dots> = (c # take ?k cs) # take m (characters (drop ?k cs))"
      by (simp only: "2.IH")
    finally show ?thesis by (simp add: Suc)
  qed
qed

lemma length_characters_first:
  "length (characters (first_characters n s)) \<le> n"
  by (simp add: first_characters_def characters_concat_take)

lemma characters_ascii:
  "\<forall>c\<in>set s. is_ascii c \<Longrightarrow> characters s = map (\<lambda>c. [c]) s"
  by (induction s) (simp_all add: is_ascii_def width_def)

lemma word_runs_cong:
  "\<forall>c\<in>set cs. word c = word' c \<Longrightarrow> word_runs word acc cs = word_runs word' acc cs"
  by (induction cs arbitrary: acc) simp_all

lemma word_runs_chars:
  "\<Union> (set ` set (word_runs word acc cs)) \<subseteq> \<Union> (set ` set acc) \<union> \<Union> (set ` set cs)"
proof (induction cs arbitrary: acc)
  case Nil then show ?case by auto
next
  case (Cons c cs)
  show ?case
  proof (cases "word c")
    case True
    then show ?thesis using Cons.IH [of "acc @ [c]"] by auto
  next
    case False
    then show ?thesis using Cons.IH [of "[]"] by auto
  qed
qed

lemma join_chars: "set (join sep xs) \<subseteq> set sep \<union> \<Union> (set ` set xs)"
  by (induction sep xs rule: join.induct) auto


lemma spec_base_name_ascii:
  assumes word: "\<forall>c. is_ascii c \<longrightarrow> word_char w [c] = ascii_word c"
    and low: "\<forall>s. (\<forall>c\<in>set s. is_ascii c) \<longrightarrow> str_lower w s = map ascii_lower_char s"
    and t: "\<forall>c\<in>set t. is_ascii c"
  shows "spec_base_name w t =
           first_characters 50
             (map ascii_lower_char
                (join ''_'' (word_runs ascii_only_word [] (characters t))))"
proof -
  have ch: "characters t = map (\<lambda>c. [c]) t"
    using t by (rule characters_ascii)
  have "\<forall>c\<in>set (characters t). word_char w c = ascii_only_word c"
    using word t by (auto simp: ch)
  then have runs: "word_runs (word_char w) [] (characters t)
                   = word_runs ascii_only_word [] (characters t)"
    by (rule word_runs_cong)
  have "\<Union> (set ` set (word_runs ascii_only_word [] (characters t))) \<subseteq> set t"
    using word_runs_chars [of ascii_only_word "[]" "characters t"] by (auto simp: ch)
  with join_chars [of "''_''" "word_runs ascii_only_word [] (characters t)"]
  have "set (join ''_'' (word_runs ascii_only_word [] (characters t)))
          \<subseteq> insert CHR ''_'' (set t)"
    by auto
  moreover have "is_ascii CHR ''_''" by (simp add: is_ascii_def)
  ultimately have "\<forall>c\<in>set (join ''_'' (word_runs ascii_only_word [] (characters t))).
                     is_ascii c"
    using t by auto
  with low have "str_lower w (join ''_'' (word_runs ascii_only_word [] (characters t)))
      = map ascii_lower_char (join ''_'' (word_runs ascii_only_word [] (characters t)))"
    by blast
  then show ?thesis by (simp add: spec_base_name_def runs)
qed

lemma attention_ascii:
  "\<forall>c\<in>set ''Attention Is All You Need: Transformer Models!!''. is_ascii c"
  by (simp add: is_ascii_def)

lemma attention_base_name:
  "first_characters 50
     (map ascii_lower_char
        (join ''_'' (word_runs ascii_only_word []
           (characters ''Attention Is All You Need: Transformer Models!!''))))
   = ''attention_is_all_you_need_transformer_models''"
  by code_simp

lemma fixture_tables_ascii:
  "\<forall>c. is_ascii c \<longrightarrow> word_char chain [c] = ascii_word c"
  "\<forall>s. (\<forall>c\<in>set s. is_ascii c) \<longrightarrow> str_lower chain s = map ascii_lower_char s"
  by (simp_all add: chain_def repository_def)

lemma survey_base_name:
  "spec_base_name chain
     ''A Survey of Deep Learning Techniques for Neural Machine Translation''
   = ''a_survey_of_deep_learning_techniques_for_neural_ma''"
  by code_simp

lemma accented_base_names:
  "spec_base_name accented (capital_I_dotted @ ''stanbul'')
     = ''i'' @ combining_dot_above @ ''stanbul''"
  "spec_base_name accented (''Caf'' @ e_acute @ '' au lait'') = ''caf'' @ e_acute @ ''_au_lait''"
  by code_simp+

text \<open>
  C8. For a paper dictionary with the title \<open>t\<close>, and whatever the tables of the
  interpreter, the file name that \<open>create_json_file_name\<close> returns is the output
  directory joined with the base name of the specification (the runs of word characters
  of the title, joined by underscores, in lower case, cut to the first 50 characters),
  followed by \<open>.json\<close>; the base name has at most 50 characters; and with tables
  that are Python's on ASCII characters, the title
  \<open>Attention Is All You Need: Transformer Models!!\<close> has the base name
  \<open>attention_is_all_you_need_transformer_models\<close>.
\<close>

theorem create_json_file_name_spec:
  "title paper_dict = Some t \<Longrightarrow>
   create_json_file_name w paper_dict out_dir_name =
     Inr (path_join out_dir_name (spec_base_name w t) @ ''.json'')
   \<and> length (characters (spec_base_name w t)) \<le> 50
   \<and> ((\<forall>c. is_ascii c \<longrightarrow> word_char w [c] = ascii_word c) \<longrightarrow>
       (\<forall>s. (\<forall>c\<in>set s. is_ascii c) \<longrightarrow> str_lower w s = map ascii_lower_char s) \<longrightarrow>
       spec_base_name w ''Attention Is All You Need: Transformer Models!!'' =
         ''attention_is_all_you_need_transformer_models'')"
proof (intro conjI impI)
  assume "title paper_dict = Some t"
  then show "create_json_file_name w paper_dict out_dir_name =
     Inr (path_join out_dir_name (spec_base_name w t) @ ''.json'')"
    by (simp add: create_json_file_name_def slug_spec)
  show "length (characters (spec_base_name w t)) \<le> 50"
    unfolding spec_base_name_def by (rule length_characters_first)
  show "spec_base_name w ''Attention Is All You Need: Transformer Models!!'' =
         ''attention_is_all_you_need_transformer_models''"
    if "\<forall>c. is_ascii c \<longrightarrow> word_char w [c] = ascii_word c"
      "\<forall>s. (\<forall>c\<in>set s. is_ascii c) \<longrightarrow> str_lower w s = map ascii_lower_char s"
    using spec_base_name_ascii [OF that attention_ascii] attention_base_name by simp
qed

theorem create_json_file_name_spec_witness:
  "title (paper_with ''S''
       ''A Survey of Deep Learning Techniques for Neural Machine Translation'' [] []) =
     Some ''A Survey of Deep Learning Techniques for Neural Machine Translation''
   \<and> create_json_file_name chain
       (paper_with ''S''
          ''A Survey of Deep Learning Techniques for Neural Machine Translation'' [] [])
       ''output'' =
     Inr ''output/a_survey_of_deep_learning_techniques_for_neural_ma.json''
   \<and> spec_base_name chain ''Attention Is All You Need: Transformer Models!!'' =
       ''attention_is_all_you_need_transformer_models''
   \<and> create_json_file_name accented
       (paper_with ''I'' (capital_I_dotted @ ''stanbul'') [] []) ''output'' =
     Inr (''output/i'' @ combining_dot_above @ ''stanbul.json'')
   \<and> length (characters (capital_I_dotted @ ''stanbul'')) = 8
   \<and> length (characters (''i'' @ combining_dot_above @ ''stanbul'')) = 9
   \<and> create_json_file_name accented
       (paper_with ''C'' (''Caf'' @ e_acute @ '' au lait'') [] []) ''output'' =
     Inr (''output/caf'' @ e_acute @ ''_au_lait.json'')"
proof -
  have t: "title (paper_with ''S''
       ''A Survey of Deep Learning Techniques for Neural Machine Translation'' [] []) =
     Some ''A Survey of Deep Learning Techniques for Neural Machine Translation''"
    by (simp add: paper_with_def)
  note s = create_json_file_name_spec [OF t, of chain "''output''"]
  have 1: "create_json_file_name chain
       (paper_with ''S''
          ''A Survey of Deep Learning Techniques for Neural Machine Translation'' [] [])
       ''output'' =
     Inr ''output/a_survey_of_deep_learning_techniques_for_neural_ma.json''"
    using s [THEN conjunct1] by (simp add: survey_base_name path_join_def)
  have 2: "spec_base_name chain ''Attention Is All You Need: Transformer Models!!'' =
       ''attention_is_all_you_need_transformer_models''"
    using s [THEN conjunct2, THEN conjunct2] fixture_tables_ascii by blast
  have ti: "title (paper_with ''I'' (capital_I_dotted @ ''stanbul'') [] [])
            = Some (capital_I_dotted @ ''stanbul'')"
    by (simp add: paper_with_def)
  have 3: "create_json_file_name accented
       (paper_with ''I'' (capital_I_dotted @ ''stanbul'') [] []) ''output'' =
     Inr (''output/i'' @ combining_dot_above @ ''stanbul.json'')"
  proof -
    have "create_json_file_name accented
            (paper_with ''I'' (capital_I_dotted @ ''stanbul'') [] []) ''output'' =
          Inr (path_join ''output'' (''i'' @ combining_dot_above @ ''stanbul'') @ ''.json'')"
      using create_json_file_name_spec [OF ti, of accented "''output''", THEN conjunct1]
      by (simp only: accented_base_names)
    then show ?thesis by (simp add: path_join_def)
  qed
  have 4: "length (characters (capital_I_dotted @ ''stanbul'')) = 8"
    "length (characters (''i'' @ combining_dot_above @ ''stanbul'')) = 9"
    by code_simp+
  have tc: "title (paper_with ''C'' (''Caf'' @ e_acute @ '' au lait'') [] [])
            = Some (''Caf'' @ e_acute @ '' au lait'')"
    by (simp add: paper_with_def)
  have 5: "create_json_file_name accented
       (paper_with ''C'' (''Caf'' @ e_acute @ '' au lait'') [] []) ''output'' =
     Inr (''output/caf'' @ e_acute @ ''_au_lait.json'')"
  proof -
    have "create_json_file_name accented
            (paper_with ''C'' (''Caf'' @ e_acute @ '' au lait'') [] []) ''output'' =
          Inr (path_join ''output'' (''caf'' @ e_acute @ ''_au_lait'') @ ''.json'')"
      using create_json_file_name_spec [OF tc, of accented "''output''", THEN conjunct1]
      by (simp only: accented_base_names)
    then show ?thesis by (simp add: path_join_def)
  qed
  show ?thesis
    by (intro conjI t 1 2 3 4 5)
qed

subsection \<open>The traversal on concrete graphs\<close>

text \<open>
  C1. The seed \<open>P\<close> refers to \<open>Q\<close>, so \<open>Q\<close> can be reached from the seeds. The
  traversal ends with a \<open>TypeError\<close> when \<open>P\<close> alone is in the visited set: \<open>Q\<close>
  is never visited, and nothing was requested.
\<close>

theorem chain_traversal_stops_at_seed:
  "get_related_papers default_scrapper chain [(''P'', paper_P)] None =
     Some (Some TypeError, visiting_P)
   \<and> ''Q'' \<in> set (edge_targets paper_P)
   \<and> ''Q'' \<notin> paper_visited_set visiting_P
   \<and> fetch_count (trace visiting_P) ''Q'' = 0"
  by (simp add: get_related_papers_nonempty edge_targets_def paper_P_def paper_with_def
        visiting_P_def fetch_count_def)

text \<open>
  C4. On the diamond with the seed \<open>A\<close>, the traversal ends with a \<open>TypeError\<close>
  when \<open>A\<close> alone is in the visited set: \<open>B\<close>, \<open>C\<close> and \<open>D\<close> are requested
  zero times and no file is written.
\<close>

theorem diamond_traversal_stops_at_seed:
  "get_related_papers default_scrapper diamond [(''A'', paper_A)] (Some ''out'') =
     Some (Some TypeError, visiting_A)
   \<and> paper_visited_set visiting_A = {''A''}
   \<and> fetch_count (trace visiting_A) ''B'' = 0
   \<and> fetch_count (trace visiting_A) ''C'' = 0
   \<and> fetch_count (trace visiting_A) ''D'' = 0
   \<and> written (trace visiting_A) = []"
  by (simp add: get_related_papers_nonempty visiting_A_def fetch_count_def)

subsection \<open>The fetcher\<close>

lemma fetched_append: "fetched (xs @ ys) = fetched xs @ fetched ys"
  by (induction xs rule: fetched.induct) simp_all

lemma written_append: "written (xs @ ys) = written xs @ written ys"
  by (induction xs rule: written.induct) simp_all

lemma json_url_inject: "json_url a = json_url b \<longleftrightarrow> a = b"
  by (simp add: json_url_def)

lemma fetched_get_paper_json_by_id:
  "fetched (fst (get_paper_json_by_id self w paper_id)) = [json_url paper_id]"
  by (simp add: get_paper_json_by_id_def split: sum.splits)

lemma written_get_paper_json_by_id:
  "written (fst (get_paper_json_by_id self w paper_id)) = []"
  by (simp add: get_paper_json_by_id_def split: sum.splits)




subsection \<open>Resolving one title\<close>

lemma scrap_try_block_check_failed:
  "check_paper_page b paper_title = Some e \<Longrightarrow>
   snd (scrap_try_block self b w paper_title call_browser) = empty_dict"
  by (simp add: scrap_try_block_def split: option.splits)

text \<open>
  C10, as stated, fails: with \<open>call_browser\<close> true, an exception of the start of
  the browser reaches the caller.
\<close>

theorem scrap_paper_by_title_raises:
  "scrap_paper_by_title default_scrapper browser_without_chrome chain ''Paper P'' True =
     Inl WebDriverException"
  by (simp add: scrap_paper_by_title_def start_browser_def browser_without_chrome_def
        browser_showing_def)

text \<open>
  C10, amended. When the browser is not started by the call, or its start succeeds,
  \<open>scrap_paper_by_title\<close> returns \<open>attributes_dict\<close> as the \<open>try\<close> block left it,
  whatever exception is in flight. When the title on the page is further than 10 from
  the requested one, \<open>_check_paper_page\<close> raises \<open>TypeError\<close>, not
  \<open>FirstPaperDifferentError\<close>; and whenever \<open>_check_paper_page\<close> raises, the
  dictionary returned is the empty one.
\<close>

theorem scrap_paper_by_title_returns:
  "(call_browser \<longrightarrow> chrome b = None) \<Longrightarrow>
   scrap_paper_by_title self b w paper_title call_browser =
     Inr (snd (scrap_try_block self b w paper_title call_browser))
   \<and> (wait_until_present b (ByTagName ''h1'') = None \<longrightarrow>
        h1_elements b = Inr h1_list \<longrightarrow>
        filter (\<lambda>h1. data_selenium_selector h1 = Some ''paper-detail-title'') h1_list
          = shown # others \<longrightarrow>
        10 < levenshtein b paper_title (h1_text shown) \<longrightarrow>
        check_paper_page b paper_title = Some TypeError)
   \<and> (check_paper_page b paper_title = Some e \<longrightarrow>
        scrap_paper_by_title self b w paper_title call_browser = Inr empty_dict)"
proof (intro conjI impI)
  assume c: "call_browser \<longrightarrow> chrome b = None"
  then show r: "scrap_paper_by_title self b w paper_title call_browser =
     Inr (snd (scrap_try_block self b w paper_title call_browser))"
    by (auto simp: scrap_paper_by_title_def start_browser_def scrap_try_except_def
          split: prod.splits)
  show "check_paper_page b paper_title = Some TypeError"
    if "wait_until_present b (ByTagName ''h1'') = None" "h1_elements b = Inr h1_list"
      "filter (\<lambda>h1. data_selenium_selector h1 = Some ''paper-detail-title'') h1_list
         = shown # others"
      "10 < levenshtein b paper_title (h1_text shown)"
    using that by (simp add: check_paper_page_def new_FirstPaperDifferentError_def)
  show "scrap_paper_by_title self b w paper_title call_browser = Inr empty_dict"
    if "check_paper_page b paper_title = Some e"
    using r that by (simp add: scrap_try_block_check_failed)
qed

theorem scrap_paper_by_title_returns_witness:
  "chrome (browser_showing ''Paper P'') = None
   \<and> wait_until_present (browser_showing ''Paper P'') (ByTagName ''h1'') = None
   \<and> h1_elements (browser_showing ''Paper P'') =
       Inr [\<lparr>data_selenium_selector = Some ''paper-detail-title'', h1_text = ''Paper P''\<rparr>]
   \<and> 10 < levenshtein (browser_showing ''Paper P'') ''Foo'' ''Paper P''
   \<and> check_paper_page (browser_showing ''Paper P'') ''Foo'' = Some TypeError
   \<and> scrap_paper_by_title default_scrapper (browser_showing ''Paper P'') chain ''Foo'' True =
       Inr empty_dict"
proof -
  have a: "True \<longrightarrow> chrome (browser_showing ''Paper P'') = None"
    by (simp add: browser_showing_def)
  have b: "wait_until_present (browser_showing ''Paper P'') (ByTagName ''h1'') = None"
    by (simp add: browser_showing_def)
  have c: "h1_elements (browser_showing ''Paper P'') =
       Inr [\<lparr>data_selenium_selector = Some ''paper-detail-title'', h1_text = ''Paper P''\<rparr>]"
    by (simp add: browser_showing_def)
  have d: "10 < levenshtein (browser_showing ''Paper P'') ''Foo'' ''Paper P''"
    by (simp add: browser_showing_def)
  note t = scrap_paper_by_title_returns
      [OF a, where self = default_scrapper and w = chain and paper_title = "''Foo''"
         and e = TypeError and others = "[]"
         and shown = "\<lparr>data_selenium_selector = Some ''paper-detail-title'',
                     h1_text = ''Paper P''\<rparr>"
         and h1_list = "[\<lparr>data_selenium_selector = Some ''paper-detail-title'',
                           h1_text = ''Paper P''\<rparr>]"]
  have e: "check_paper_page (browser_showing ''Paper P'') ''Foo'' = Some TypeError"
    using t [THEN conjunct2, THEN conjunct1] b c d by simp
  have f: "scrap_paper_by_title default_scrapper (browser_showing ''Paper P'') chain ''Foo'' True
           = Inr empty_dict"
    using t [THEN conjunct2, THEN conjunct2] e by (rule mp)
  have g: "chrome (browser_showing ''Paper P'') = None"
    by (simp add: browser_showing_def)
  show ?thesis
    by (intro conjI g b c d e f)
qed

subsection \<open>One pass of the expansion loop\<close>

lemma save_json_result:
  "save_json w p d st = (r, st') \<Longrightarrow>
     (\<exists>e. r = Some e \<and> st' = st)
   \<or> (\<exists>n. r = None \<and> create_json_file_name w p d = Inr n
          \<and> st' = st\<lparr>trace := trace st @ [WriteFile n p]\<rparr>)"
  by (auto simp: save_json_def split: sum.splits option.splits)

lemma retrieve_one_known:
  "i \<in> fst ` set (papers_dict st) \<Longrightarrow> retrieve_one self w out i st = (None, st)"
  by (simp add: retrieve_one_def)

lemma retrieve_one_fetch_failed:
  "i \<notin> fst ` set (papers_dict st) \<Longrightarrow> snd (get_paper_json_by_id self w i) = Inl e \<Longrightarrow>
   retrieve_one self w out i st =
     (Some e, st\<lparr>trace := trace st @ fst (get_paper_json_by_id self w i)\<rparr>)"
  by (cases "get_paper_json_by_id self w i") (simp add: retrieve_one_def)

lemma retrieve_one_fetched:
  assumes "i \<notin> fst ` set (papers_dict st)" "snd (get_paper_json_by_id self w i) = Inr p"
    and "retrieve_one self w out i st = (r, st')"
  shows "(\<exists>e. r = Some e
            \<and> st' = st\<lparr>papers_dict := AList.update i p (papers_dict st),
                 trace := trace st @ fst (get_paper_json_by_id self w i)\<rparr>)
       \<or> (\<exists>ws. r = None \<and> (ws = [] \<or> (\<exists>n. ws = [WriteFile n p]))
            \<and> st' = st\<lparr>papers_dict := AList.update i p (papers_dict st),
                 trace := trace st @ fst (get_paper_json_by_id self w i) @ ws,
                 paper_id_queue := paper_id_queue st @
                   (if i \<in> paper_visited_set st then [] else [i])\<rparr>)"
proof -
  obtain evs where g: "get_paper_json_by_id self w i = (evs, Inr p)"
    using assms(2) by (cases "get_paper_json_by_id self w i") simp
  let ?st1 = "st\<lparr>papers_dict := AList.update i p (papers_dict st), trace := trace st @ evs\<rparr>"
  show ?thesis
  proof (cases out)
    case None
    with assms(1,3) g show ?thesis by (auto simp: retrieve_one_def)
  next
    case (Some d)
    obtain r1 st1 where s: "save_json w p d ?st1 = (r1, st1)"
      by (cases "save_json w p d ?st1")
    from save_json_result [OF s] show ?thesis
    proof (elim disjE exE conjE)
      fix e assume "r1 = Some e" "st1 = ?st1"
      with assms(1,3) g Some s show ?thesis by (auto simp: retrieve_one_def)
    next
      fix n assume "r1 = None" "st1 = ?st1\<lparr>trace := trace ?st1 @ [WriteFile n p]\<rparr>"
      with assms(1,3) g Some s show ?thesis by (auto simp: retrieve_one_def)
    qed
  qed
qed


lemma keys_update: "fst ` set (AList.update k v al) = insert k (fst ` set al)"
  using dom_update [of k v al] by (simp add: dom_map_of_conv_image_fst)

lemma map_of_update_other:
  "k \<notin> fst ` set al \<Longrightarrow> map_of al j = Some p \<Longrightarrow> map_of (AList.update k v al) j = Some p"
  by (auto simp: update_conv' dest: map_of_SomeD intro: rev_image_eqI)

lemma get_paper_json_by_id_answer:
  "snd (get_paper_json_by_id self w i) = Inr p \<Longrightarrow>
   http_get w (json_url i) = Inr (Response (Some p))"
  by (cases "http_get w (json_url i)")
     (auto simp: get_paper_json_by_id_def split: if_splits option.splits response.splits
        intro: response.expand)

lemma retrieve_one_cases [consumes 1, case_names known fetch_failed save_failed stored]:
  assumes "retrieve_one self w out i st = (r, st')"
  obtains
    "i \<in> fst ` set (papers_dict st)" "r = None" "st' = st"
  | e where "i \<notin> fst ` set (papers_dict st)" "r = Some e"
      "snd (get_paper_json_by_id self w i) = Inl e"
      "st' = st\<lparr>trace := trace st @ fst (get_paper_json_by_id self w i)\<rparr>"
  | e p where "i \<notin> fst ` set (papers_dict st)" "r = Some e"
      "snd (get_paper_json_by_id self w i) = Inr p"
      "st' = st\<lparr>papers_dict := AList.update i p (papers_dict st),
                 trace := trace st @ fst (get_paper_json_by_id self w i)\<rparr>"
  | p ws where "i \<notin> fst ` set (papers_dict st)" "r = None"
      "snd (get_paper_json_by_id self w i) = Inr p"
      "ws = [] \<or> (\<exists>n. ws = [WriteFile n p])"
      "st' = st\<lparr>papers_dict := AList.update i p (papers_dict st),
                 trace := trace st @ fst (get_paper_json_by_id self w i) @ ws,
                 paper_id_queue := paper_id_queue st @
                   (if i \<in> paper_visited_set st then [] else [i])\<rparr>"
proof (cases "i \<in> fst ` set (papers_dict st)")
  case True
  have "(r, st') = (None, st)"
    using assms retrieve_one_known [OF True, of self w out] by simp
  then have "r = None" "st' = st" by simp_all
  then show ?thesis by (rule that(1) [OF True])
next
  case False
  show ?thesis
  proof (cases "snd (get_paper_json_by_id self w i)")
    case (Inl e)
    have "(r, st') = (Some e, st\<lparr>trace := trace st @ fst (get_paper_json_by_id self w i)\<rparr>)"
      using assms retrieve_one_fetch_failed [OF False Inl, of out] by simp
    then have "r = Some e"
      "st' = st\<lparr>trace := trace st @ fst (get_paper_json_by_id self w i)\<rparr>" by simp_all
    then show ?thesis using that(2) [OF False _ Inl] by blast
  next
    case (Inr p)
    from retrieve_one_fetched [OF False Inr assms] that(3,4) False Inr show ?thesis
      by blast
  qed
qed

lemma retrieve_loop_Cons_cases:
  assumes "retrieve_loop self w out (i # rest) st = (r, st')"
  obtains (raised) e where "retrieve_one self w out i st = (Some e, st')" "r = Some e"
    | (passed) st1 where "retrieve_one self w out i st = (None, st1)"
        "retrieve_loop self w out rest st1 = (r, st')"
proof (cases "retrieve_one self w out i st")
  case (Pair r1 st1)
  show ?thesis
  proof (cases r1)
    case None
    with Pair assms show ?thesis by (intro passed [of st1]) simp_all
  next
    case (Some e)
    with Pair assms show ?thesis by (intro raised [of e]) auto
  qed
qed

lemma retrieve_one_store:
  assumes "retrieve_one self w out i st = (r, st')" "map_of (papers_dict st) k = Some p"
  shows "map_of (papers_dict st') k = Some p"
  using assms(1)
  by (cases rule: retrieve_one_cases) (simp_all add: assms(2) map_of_update_other)

lemma retrieve_loop_store:
  "retrieve_loop self w out ids st = (r, st') \<Longrightarrow> map_of (papers_dict st) k = Some p \<Longrightarrow>
   map_of (papers_dict st') k = Some p"
proof (induction ids arbitrary: st)
  case Nil
  then show ?case by simp
next
  case (Cons i rest)
  from Cons.prems(1) show ?case
  proof (cases rule: retrieve_loop_Cons_cases)
    case (raised e)
    show ?thesis by (rule retrieve_one_store [OF raised(1) Cons.prems(2)])
  next
    case (passed st1)
    from passed(2) retrieve_one_store [OF passed(1) Cons.prems(2)] show ?thesis
      by (rule Cons.IH)
  qed
qed

lemma retrieve_one_extends:
  assumes "retrieve_one self w out i st = (r, st')"
  shows "trace st' = trace st @ new_events st st'"
    and "paper_id_queue st' = paper_id_queue st @ enqueued st st'"
    and "paper_visited_set st' = paper_visited_set st"
  using assms
  by (cases rule: retrieve_one_cases; simp add: new_events_def enqueued_def)+

lemma retrieve_one_enqueued:
  assumes "retrieve_one self w out i st = (r, st')"
  shows "set (enqueued st st') \<subseteq> {i}"
  using assms
  by (cases rule: retrieve_one_cases) (simp_all add: enqueued_def)

lemma retrieve_one_fetched_new:
  assumes "retrieve_one self w out i st = (r, st')"
  shows "fetched (new_events st st') = [] \<or>
         i \<notin> fst ` set (papers_dict st) \<and> fetched (new_events st st') = [json_url i]"
  using assms
proof (cases rule: retrieve_one_cases)
  case (stored p ws)
  from stored(4) have "fetched ws = []" by auto
  with stored show ?thesis
    by (simp add: new_events_def fetched_append fetched_get_paper_json_by_id)
qed (simp_all add: new_events_def fetched_get_paper_json_by_id)

lemma retrieve_one_written_new:
  assumes "retrieve_one self w out i st = (r, st')"
    and "(n, p) \<in> set (written (new_events st st'))"
  shows "fetched (new_events st st') = [json_url i]
         \<and> http_get w (json_url i) = Inr (Response (Some p))"
  using assms(1)
proof (cases rule: retrieve_one_cases)
  case known
  with assms(2) show ?thesis by (simp add: new_events_def)
next
  case (fetch_failed e)
  with assms(2) show ?thesis by (simp add: new_events_def written_get_paper_json_by_id)
next
  case (save_failed e q)
  with assms(2) show ?thesis by (simp add: new_events_def written_get_paper_json_by_id)
next
  case (stored q ws)
  from stored(5) have new: "new_events st st' = fst (get_paper_json_by_id self w i) @ ws"
    by (simp add: new_events_def)
  from stored(4) have f: "fetched ws = []" by auto
  from assms(2) new have "(n, p) \<in> set (written ws)"
    by (simp add: written_append written_get_paper_json_by_id)
  with stored(4) have "q = p" by auto
  with get_paper_json_by_id_answer [OF stored(3)] new f show ?thesis
    by (simp add: fetched_append fetched_get_paper_json_by_id)
qed

lemma retrieve_one_keys:
  assumes "retrieve_one self w out i st = (r, st')"
  shows "fst ` set (papers_dict st') \<subseteq> insert i (fst ` set (papers_dict st))"
    and "fst ` set (papers_dict st) \<subseteq> fst ` set (papers_dict st')"
  using assms
  by (cases rule: retrieve_one_cases; auto simp: keys_update)+

subsection \<open>The expansion loop\<close>

lemma new_events_trans:
  "trace st1 = trace st @ a \<Longrightarrow> trace st' = trace st1 @ b \<Longrightarrow>
   new_events st st' = new_events st st1 @ new_events st1 st'"
  by (simp add: new_events_def)

lemma enqueued_trans:
  "paper_id_queue st1 = paper_id_queue st @ a \<Longrightarrow> paper_id_queue st' = paper_id_queue st1 @ b \<Longrightarrow>
   enqueued st st' = enqueued st st1 @ enqueued st1 st'"
  by (simp add: enqueued_def)

lemma append_drop_self: "ys = xs @ a \<Longrightarrow> ys = xs @ drop (length xs) ys"
  by simp

lemma retrieve_loop_extends:
  "retrieve_loop self w out ids st = (r, st') \<Longrightarrow>
   trace st' = trace st @ new_events st st'
   \<and> paper_id_queue st' = paper_id_queue st @ enqueued st st'
   \<and> paper_visited_set st' = paper_visited_set st"
proof (induction ids arbitrary: st)
  case Nil
  then show ?case by (simp add: new_events_def enqueued_def)
next
  case (Cons i rest)
  from Cons.prems show ?case
  proof (cases rule: retrieve_loop_Cons_cases)
    case (raised e)
    from retrieve_one_extends [OF raised(1)] show ?thesis by simp
  next
    case (passed st1)
    note 1 = retrieve_one_extends [OF passed(1)]
    note 2 = Cons.IH [OF passed(2)]
    have "trace st' = trace st @ (new_events st st1 @ new_events st1 st')"
      using 1(1) 2 by simp
    moreover have "paper_id_queue st' = paper_id_queue st @ (enqueued st st1 @ enqueued st1 st')"
      using 1(2) 2 by simp
    moreover have "paper_visited_set st' = paper_visited_set st"
      using 1(3) 2 by simp
    ultimately show ?thesis
      unfolding new_events_def enqueued_def
      by (intro conjI append_drop_self)
  qed
qed

lemma retrieve_loop_split:
  assumes "retrieve_one self w out i st = (None, st1)"
    and "retrieve_loop self w out rest st1 = (r, st')"
  shows "new_events st st' = new_events st st1 @ new_events st1 st'"
    and "enqueued st st' = enqueued st st1 @ enqueued st1 st'"
proof -
  note 1 = retrieve_one_extends [OF assms(1)]
  note 2 = retrieve_loop_extends [OF assms(2)]
  show "new_events st st' = new_events st st1 @ new_events st1 st'"
    using 1(1) 2 by (intro new_events_trans) simp_all
  show "enqueued st st' = enqueued st st1 @ enqueued st1 st'"
    using 1(2) 2 by (intro enqueued_trans) simp_all
qed

lemma retrieve_loop_enqueued:
  "retrieve_loop self w out ids st = (r, st') \<Longrightarrow> set (enqueued st st') \<subseteq> set ids"
proof (induction ids arbitrary: st)
  case Nil
  then show ?case by (simp add: enqueued_def)
next
  case (Cons i rest)
  from Cons.prems show ?case
  proof (cases rule: retrieve_loop_Cons_cases)
    case (raised e)
    from retrieve_one_enqueued [OF raised(1)] show ?thesis by auto
  next
    case (passed st1)
    from retrieve_one_enqueued [OF passed(1)] Cons.IH [OF passed(2)]
      retrieve_loop_split(2) [OF passed]
    show ?thesis by auto
  qed
qed

lemma retrieve_loop_fetched_new:
  "retrieve_loop self w out ids st = (r, st') \<Longrightarrow>
   set (fetched (new_events st st')) \<subseteq> json_url ` (set ids - fst ` set (papers_dict st))"
proof (induction ids arbitrary: st)
  case Nil
  then show ?case by (simp add: new_events_def)
next
  case (Cons i rest)
  from Cons.prems show ?case
  proof (cases rule: retrieve_loop_Cons_cases)
    case (raised e)
    from retrieve_one_fetched_new [OF raised(1)] show ?thesis by auto
  next
    case (passed st1)
    have "set rest - fst ` set (papers_dict st1)
            \<subseteq> set (i # rest) - fst ` set (papers_dict st)"
      using retrieve_one_keys(2) [OF passed(1)] by auto
    then have "json_url ` (set rest - fst ` set (papers_dict st1))
            \<subseteq> json_url ` (set (i # rest) - fst ` set (papers_dict st))"
      by (rule image_mono)
    with Cons.IH [OF passed(2)]
    have 2: "set (fetched (new_events st1 st'))
            \<subseteq> json_url ` (set (i # rest) - fst ` set (papers_dict st))"
      by (rule subset_trans)
    have 1: "set (fetched (new_events st st1))
            \<subseteq> json_url ` (set (i # rest) - fst ` set (papers_dict st))"
      using retrieve_one_fetched_new [OF passed(1)] by auto
    from 1 2 show ?thesis
      by (simp add: retrieve_loop_split(1) [OF passed] fetched_append)
  qed
qed

lemma retrieve_loop_keys:
  "retrieve_loop self w out ids st = (r, st') \<Longrightarrow>
   fst ` set (papers_dict st') \<subseteq> set ids \<union> fst ` set (papers_dict st)"
proof (induction ids arbitrary: st)
  case Nil
  then show ?case by simp
next
  case (Cons i rest)
  from Cons.prems show ?case
  proof (cases rule: retrieve_loop_Cons_cases)
    case (raised e)
    from retrieve_one_keys(1) [OF raised(1)] show ?thesis by auto
  next
    case (passed st1)
    from retrieve_one_keys(1) [OF passed(1)] Cons.IH [OF passed(2)]
    show ?thesis by (simp only: list.set) blast
  qed
qed

lemma retrieve_loop_written_new:
  "retrieve_loop self w out ids st = (r, st') \<Longrightarrow>
   (n, p) \<in> set (written (new_events st st')) \<Longrightarrow>
   \<exists>k\<in>set ids. json_url k \<in> set (fetched (new_events st st'))
      \<and> http_get w (json_url k) = Inr (Response (Some p))"
proof (induction ids arbitrary: st)
  case Nil
  then show ?case by (simp add: new_events_def)
next
  case (Cons i rest)
  from Cons.prems(1) show ?case
  proof (cases rule: retrieve_loop_Cons_cases)
    case (raised e)
    from retrieve_one_written_new [OF raised(1) Cons.prems(2)] show ?thesis by simp
  next
    case (passed st1)
    note split = retrieve_loop_split(1) [OF passed]
    from Cons.prems(2) split
    consider "(n, p) \<in> set (written (new_events st st1))"
      | "(n, p) \<in> set (written (new_events st1 st'))"
      by (auto simp: written_append)
    then show ?thesis
    proof cases
      case 1
      from retrieve_one_written_new [OF passed(1) 1] split show ?thesis
        by (simp add: fetched_append)
    next
      case 2
      from Cons.IH [OF passed(2) 2] split show ?thesis
        by (auto simp: fetched_append)
    qed
  qed
qed

subsection \<open>The method and the traversal\<close>

lemma related_papers_id_list_nonempty:
  "related_papers_id_list stubs = Inr ids \<Longrightarrow> [] \<notin> set ids"
  by (induction stubs arbitrary: ids) (auto split: option.splits sum.splits if_splits)

lemma retrieve_related_papers_cases:
  assumes "retrieve_related_papers self w paper_id rel out st = (r, st')"
  obtains (raised) "st' = st"
    | (looped) ids where "[] \<notin> set ids" "retrieve_loop self w out ids st = (r, st')"
  using assms related_papers_id_list_nonempty
  unfolding retrieve_related_papers_def
  by (fastforce split: option.splits sum.splits)

lemma call_retrieve_related_papers_cases:
  assumes "call_retrieve_related_papers self w args st = Some (r, st')"
  obtains (arity) "r = Some TypeError" "st' = st"
    | (bound) paper_id rel out where
        "retrieve_related_papers self w paper_id rel out st = (r, st')"
  using assms unfolding call_retrieve_related_papers_def
  by (auto split: if_splits option.splits prod.splits)

lemma get_related_papers_total:
  "\<exists>r st'. get_related_papers self w papers out_dir_name = Some (r, st')
     \<and> trace st' = [] \<and> papers_dict st' = papers
     \<and> paper_id_queue st' = tl (map fst papers)"
proof (cases papers)
  case Nil
  then show ?thesis by (simp add: get_related_papers_empty)
next
  case (Cons ip rest)
  then show ?thesis by (cases ip) (simp add: get_related_papers_nonempty)
qed

subsection \<open>Expanding the chain\<close>

lemma chain_answers_Q: "get_paper_json_by_id default_scrapper chain ''Q'' =
    ([HttpGet (json_url ''Q''), Sleep (1 / 2)], Inr paper_Q)"
  by (simp add: get_paper_json_by_id_def chain_def repository_def json_url_inject
        default_scrapper_def)


lemma file_name_Q: "create_json_file_name chain paper_Q ''out'' = Inr ''out/paper_q.json''"
  by code_simp

lemma retrieve_one_Q:
  "retrieve_one default_scrapper chain (Some ''out'') ''Q'' visiting_P = (None, after_Q)"
  by (simp add: retrieve_one_def visiting_P_def chain_answers_Q save_json_def file_name_Q
        after_Q_def) (simp add: chain_def repository_def)

lemma expand_P:
  "retrieve_related_papers default_scrapper chain ''P'' References (Some ''out'') visiting_P
     = (None, after_Q)"
proof -
  have "map_of (papers_dict visiting_P) ''P'' = Some paper_P"
    by (simp add: visiting_P_def)
  moreover have "subscript_relationship paper_P References
                 = Inr [Stub (Some []), Stub (Some ''Q'')]"
    by (simp add: subscript_relationship_def paper_P_def paper_with_def)
  moreover have "related_papers_id_list [Stub (Some []), Stub (Some ''Q'')] = Inr [''Q'']"
    by simp
  ultimately show ?thesis
    by (simp add: retrieve_related_papers_def retrieve_one_Q)
qed

lemma new_after_Q:
  "new_events visiting_P after_Q =
     [HttpGet (json_url ''Q''), Sleep (1 / 2), WriteFile ''out/paper_q.json'' paper_Q]"
  "enqueued visiting_P after_Q = [''Q'']"
  by (simp_all add: new_events_def enqueued_def visiting_P_def after_Q_def)

subsection \<open>The record store\<close>

text \<open>
  C9. A record that \<open>papers_dict\<close> holds under an identifier is still held under
  that identifier, unchanged, after one pass of the expansion loop whatever its outcome,
  and after a call of \<open>_retrieve_related_papers\<close> with any argument list whatever
  its outcome; and \<open>get_related_papers\<close> always ends, with \<open>papers_dict\<close> as it
  was given.
\<close>

theorem store_preserved:
  "(retrieve_one self w out i st = (r, st') \<longrightarrow> map_of (papers_dict st) k = Some p \<longrightarrow>
      map_of (papers_dict st') k = Some p)
   \<and> (call_retrieve_related_papers self w args st = Some (r, st') \<longrightarrow>
      map_of (papers_dict st) k = Some p \<longrightarrow> map_of (papers_dict st') k = Some p)
   \<and> (\<exists>r st'. get_related_papers self w papers out_dir_name = Some (r, st')
        \<and> papers_dict st' = papers)"
proof (intro conjI impI)
  show "map_of (papers_dict st') k = Some p"
    if "retrieve_one self w out i st = (r, st')" "map_of (papers_dict st) k = Some p"
    using that by (rule retrieve_one_store)
  show "map_of (papers_dict st') k = Some p"
    if c: "call_retrieve_related_papers self w args st = Some (r, st')"
      and k: "map_of (papers_dict st) k = Some p"
    using c
  proof (cases rule: call_retrieve_related_papers_cases)
    case arity
    with k show ?thesis by simp
  next
    case (bound paper_id rel out)
    then show ?thesis
    proof (cases rule: retrieve_related_papers_cases)
      case raised
      with k show ?thesis by simp
    next
      case (looped ids)
      from looped(2) k show ?thesis by (rule retrieve_loop_store)
    qed
  qed
  show "\<exists>r st'. get_related_papers self w papers out_dir_name = Some (r, st')
        \<and> papers_dict st' = papers"
    using get_related_papers_total [of self w papers out_dir_name] by blast
qed


theorem store_preserved_witness:
  "retrieve_one default_scrapper chain (Some ''out'') ''Q'' visiting_P = (None, after_Q)
   \<and> map_of (papers_dict visiting_P) ''P'' = Some paper_P
   \<and> map_of (papers_dict after_Q) ''P'' = Some paper_P
   \<and> call_retrieve_related_papers default_scrapper chain
        [PyPapersDict, PyStr ''P'', PyStr ''references'', PyVisitedSet, PyIdQueue,
         PyStr ''out''] visiting_P = Some (None, after_Q)"
proof -
  have k: "map_of (papers_dict visiting_P) ''P'' = Some paper_P"
    by (simp add: visiting_P_def)
  have c: "call_retrieve_related_papers default_scrapper chain
        [PyPapersDict, PyStr ''P'', PyStr ''references'', PyVisitedSet, PyIdQueue,
         PyStr ''out''] visiting_P = Some (None, after_Q)"
    by (simp add: call_retrieve_related_papers_def required_parameters_def
          all_parameters_def bind_retrieve_related_papers_def expand_P)
  note t = store_preserved [where self = default_scrapper and w = chain
      and out = "Some ''out''" and i = "''Q''" and st = visiting_P and r = None
      and st' = after_Q and k = "''P''" and p = paper_P
      and args = "[PyPapersDict, PyStr ''P'', PyStr ''references'', PyVisitedSet,
                   PyIdQueue, PyStr ''out'']"]
  have "map_of (papers_dict after_Q) ''P'' = Some paper_P"
    using t [THEN conjunct1] retrieve_one_Q k by blast
  moreover have "map_of (papers_dict after_Q) ''P'' = Some paper_P"
    using t [THEN conjunct2, THEN conjunct1] c k by blast
  ultimately show ?thesis using retrieve_one_Q k c by blast
qed

subsection \<open>Entries with an empty identifier\<close>

lemma new_events_same: "new_events st st = []" "enqueued st st = []"
  by (simp_all add: new_events_def enqueued_def)

lemma retrieve_related_papers_extends:
  assumes "retrieve_related_papers self w paper_id rel out st = (r, st')"
  shows "trace st' = trace st @ new_events st st'"
    and "paper_id_queue st' = paper_id_queue st @ enqueued st st'"
    and "paper_visited_set st' = paper_visited_set st"
proof -
  have "trace st' = trace st @ new_events st st'
      \<and> paper_id_queue st' = paper_id_queue st @ enqueued st st'
      \<and> paper_visited_set st' = paper_visited_set st"
    using assms
  proof (cases rule: retrieve_related_papers_cases)
    case raised
    then show ?thesis by (simp add: new_events_same)
  next
    case (looped ids)
    then show ?thesis by (intro retrieve_loop_extends)
  qed
  then show "trace st' = trace st @ new_events st st'"
    and "paper_id_queue st' = paper_id_queue st @ enqueued st st'"
    and "paper_visited_set st' = paper_visited_set st"
    by simp_all
qed

lemma retrieve_related_papers_no_empty_fetch:
  assumes "retrieve_related_papers self w paper_id rel out st = (r, st')"
  shows "json_url [] \<notin> set (fetched (new_events st st'))"
  using assms
proof (cases rule: retrieve_related_papers_cases)
  case raised
  then show ?thesis by (simp add: new_events_same)
next
  case (looped ids)
  show ?thesis
  proof
    assume "json_url [] \<in> set (fetched (new_events st st'))"
    with retrieve_loop_fetched_new [OF looped(2)]
    have "json_url [] \<in> json_url ` (set ids - fst ` set (papers_dict st))" by (rule subsetD)
    then have "[] \<in> set ids" by (auto simp: json_url_inject)
    with looped(1) show False by simp
  qed
qed

lemma retrieve_related_papers_no_empty_enqueue:
  assumes "retrieve_related_papers self w paper_id rel out st = (r, st')"
  shows "[] \<notin> set (enqueued st st')"
  using assms
proof (cases rule: retrieve_related_papers_cases)
  case raised
  then show ?thesis by (simp add: new_events_same)
next
  case (looped ids)
  with retrieve_loop_enqueued [OF looped(2)] show ?thesis by auto
qed

lemma retrieve_related_papers_no_empty_key:
  assumes "retrieve_related_papers self w paper_id rel out st = (r, st')"
    and "[] \<in> fst ` set (papers_dict st')"
  shows "[] \<in> fst ` set (papers_dict st)"
  using assms(1)
proof (cases rule: retrieve_related_papers_cases)
  case raised
  with assms(2) show ?thesis by simp
next
  case (looped ids)
  from retrieve_loop_keys [OF looped(2)] assms(2)
  have "[] \<in> set ids \<union> fst ` set (papers_dict st)" by (rule subsetD)
  with looped(1) show ?thesis by simp
qed

lemma retrieve_related_papers_written:
  assumes "retrieve_related_papers self w paper_id rel out st = (r, st')"
    and "(n, p) \<in> set (written (new_events st st'))"
  shows "\<exists>k. k \<noteq> [] \<and> json_url k \<in> set (fetched (new_events st st'))
              \<and> http_get w (json_url k) = Inr (Response (Some p))"
  using assms(1)
proof (cases rule: retrieve_related_papers_cases)
  case raised
  with assms(2) show ?thesis by (simp add: new_events_same)
next
  case (looped ids)
  from retrieve_loop_written_new [OF looped(2) assms(2)]
  obtain k where k: "k \<in> set ids" "json_url k \<in> set (fetched (new_events st st'))"
    "http_get w (json_url k) = Inr (Response (Some p))" by (elim bexE conjE)
  from k(1) looped(1) have "k \<noteq> []" by auto
  with k(2,3) show ?thesis by (intro exI [of _ k] conjI)
qed

text \<open>
  C7. The identifier list built from the entries of a \<open>references\<close> or
  \<open>citations\<close> list never holds the empty identifier. Hence a call of
  \<open>_retrieve_related_papers\<close>, whatever its outcome, only appends to the trace and to
  the queue, and what it appends has no request for the empty identifier and no queue
  entry for it; the empty identifier does not become a key of \<open>papers_dict\<close>; and
  every paper it writes to a file is the answer to a request, made in the same call, for
  an identifier that is not empty. A run of \<open>get_related_papers\<close> always ends, with no
  request made, nothing written, \<open>papers_dict\<close> as given and nothing appended to the
  queue, which holds the seed keys behind the first.
\<close>

theorem empty_stub_untouched:
  "(related_papers_id_list stubs = Inr ids \<longrightarrow> [] \<notin> set ids)
   \<and> (retrieve_related_papers self w paper_id rel out st = (r, st') \<longrightarrow>
        trace st' = trace st @ new_events st st'
      \<and> paper_id_queue st' = paper_id_queue st @ enqueued st st'
      \<and> json_url [] \<notin> set (fetched (new_events st st'))
      \<and> [] \<notin> set (enqueued st st')
      \<and> [] \<notin> fst ` set (papers_dict st') - fst ` set (papers_dict st)
      \<and> (\<forall>n p. (n, p) \<in> set (written (new_events st st')) \<longrightarrow>
            (\<exists>k. k \<noteq> [] \<and> json_url k \<in> set (fetched (new_events st st'))
                 \<and> http_get w (json_url k) = Inr (Response (Some p)))))
   \<and> (\<exists>r st'. get_related_papers self w papers out_dir_name = Some (r, st')
        \<and> trace st' = [] \<and> papers_dict st' = papers
        \<and> paper_id_queue st' = tl (map fst papers))"
proof (intro conjI impI allI)
  show "[] \<notin> set ids" if "related_papers_id_list stubs = Inr ids"
    using that by (rule related_papers_id_list_nonempty)
  show "\<exists>r st'. get_related_papers self w papers out_dir_name = Some (r, st')
        \<and> trace st' = [] \<and> papers_dict st' = papers
        \<and> paper_id_queue st' = tl (map fst papers)"
    by (rule get_related_papers_total)
next
  assume a: "retrieve_related_papers self w paper_id rel out st = (r, st')"
  show "trace st' = trace st @ new_events st st'"
    by (rule retrieve_related_papers_extends(1) [OF a])
  show "paper_id_queue st' = paper_id_queue st @ enqueued st st'"
    by (rule retrieve_related_papers_extends(2) [OF a])
  show "json_url [] \<notin> set (fetched (new_events st st'))"
    by (rule retrieve_related_papers_no_empty_fetch [OF a])
  show "[] \<notin> set (enqueued st st')"
    by (rule retrieve_related_papers_no_empty_enqueue [OF a])
  show "[] \<notin> fst ` set (papers_dict st') - fst ` set (papers_dict st)"
    using retrieve_related_papers_no_empty_key [OF a] by blast
  show "\<exists>k. k \<noteq> [] \<and> json_url k \<in> set (fetched (new_events st st'))
                 \<and> http_get w (json_url k) = Inr (Response (Some p))"
    if "(n, p) \<in> set (written (new_events st st'))" for n p
    by (rule retrieve_related_papers_written [OF a that])
qed

theorem empty_stub_untouched_witness:
  "related_papers_id_list [Stub (Some []), Stub (Some ''Q'')] = Inr [''Q'']
   \<and> [] \<notin> set [''Q'']
   \<and> retrieve_related_papers default_scrapper chain ''P'' References (Some ''out'') visiting_P
       = (None, after_Q)
   \<and> fetched (new_events visiting_P after_Q) = [json_url ''Q'']
   \<and> json_url [] \<notin> set (fetched (new_events visiting_P after_Q))
   \<and> enqueued visiting_P after_Q = [''Q'']
   \<and> written (new_events visiting_P after_Q) = [(''out/paper_q.json'', paper_Q)]
   \<and> (\<exists>k. k \<noteq> [] \<and> json_url k \<in> set (fetched (new_events visiting_P after_Q))
         \<and> http_get chain (json_url k) = Inr (Response (Some paper_Q)))"
proof -
  have l: "related_papers_id_list [Stub (Some []), Stub (Some ''Q'')] = Inr [''Q'']"
    by simp
  have m: "(''out/paper_q.json'', paper_Q) \<in> set (written (new_events visiting_P after_Q))"
    by (simp add: new_after_Q)
  note t = empty_stub_untouched [where stubs = "[Stub (Some []), Stub (Some ''Q'')]"
      and ids = "[''Q'']" and self = default_scrapper and w = chain and paper_id = "''P''"
      and rel = References and out = "Some ''out''" and st = visiting_P and r = None
      and st' = after_Q]
  have e: "[] \<notin> set [''Q'']"
    using t [THEN conjunct1] l by (rule mp)
  note s = t [THEN conjunct2, THEN conjunct1, THEN mp, OF expand_P]
  have u: "json_url [] \<notin> set (fetched (new_events visiting_P after_Q))"
    using s by (elim conjE)
  have "\<forall>n p. (n, p) \<in> set (written (new_events visiting_P after_Q)) \<longrightarrow>
            (\<exists>k. k \<noteq> [] \<and> json_url k \<in> set (fetched (new_events visiting_P after_Q))
                 \<and> http_get chain (json_url k) = Inr (Response (Some p)))"
    using s by (elim conjE)
  then have v: "\<exists>k. k \<noteq> [] \<and> json_url k \<in> set (fetched (new_events visiting_P after_Q))
         \<and> http_get chain (json_url k) = Inr (Response (Some paper_Q))"
    using m by (elim allE impE)
  have f: "fetched (new_events visiting_P after_Q) = [json_url ''Q'']"
    "enqueued visiting_P after_Q = [''Q'']"
    "written (new_events visiting_P after_Q) = [(''out/paper_q.json'', paper_Q)]"
    by (simp_all add: new_after_Q)
  show ?thesis
    by (intro conjI l e expand_P f u v)
qed

subsection \<open>The gate on fetching\<close>

lemma count_list_distinct: "distinct xs \<Longrightarrow> count_list xs x \<le> 1"
  by (induction xs) (auto simp: count_list_0_iff)

lemma retrieve_one_stored_key:
  assumes "retrieve_one self w out i st = (None, st')"
  shows "i \<in> fst ` set (papers_dict st')"
  using assms
  by (cases rule: retrieve_one_cases) (simp_all add: keys_update)

lemma retrieve_one_distinct:
  assumes "fetch_gate st" "retrieve_one self w out i st = (r, st')"
  shows "distinct (fetched (trace st'))"
proof -
  have t: "fetched (trace st') = fetched (trace st) @ fetched (new_events st st')"
    using retrieve_one_extends(1) [OF assms(2)] fetched_append by metis
  from assms(1) have d: "distinct (fetched (trace st))"
    and s: "set (fetched (trace st)) \<subseteq> json_url ` fst ` set (papers_dict st)"
    by (simp_all add: fetch_gate_def)
  from retrieve_one_fetched_new [OF assms(2)] show ?thesis
  proof
    assume "fetched (new_events st st') = []"
    with t d show ?thesis by simp
  next
    assume n: "i \<notin> fst ` set (papers_dict st) \<and> fetched (new_events st st') = [json_url i]"
    have "json_url i \<notin> set (fetched (trace st))"
    proof
      assume "json_url i \<in> set (fetched (trace st))"
      with s have "json_url i \<in> json_url ` fst ` set (papers_dict st)" by (rule subsetD)
      then have "i \<in> fst ` set (papers_dict st)"
        by (auto simp only: json_url_inject image_iff)
      with n show False by simp
    qed
    with t d n show ?thesis by simp
  qed
qed

lemma retrieve_one_gate:
  assumes "fetch_gate st" "retrieve_one self w out i st = (None, st')"
  shows "fetch_gate st'"
proof -
  have t: "fetched (trace st') = fetched (trace st) @ fetched (new_events st st')"
    using retrieve_one_extends(1) [OF assms(2)] fetched_append by metis
  from assms(1) have s: "set (fetched (trace st)) \<subseteq> json_url ` fst ` set (papers_dict st)"
    by (simp add: fetch_gate_def)
  have "json_url ` fst ` set (papers_dict st) \<subseteq> json_url ` fst ` set (papers_dict st')"
    by (intro image_mono retrieve_one_keys(2) [OF assms(2)])
  with s have 1: "set (fetched (trace st)) \<subseteq> json_url ` fst ` set (papers_dict st')"
    by (rule subset_trans)
  have "json_url i \<in> json_url ` fst ` set (papers_dict st')"
    using retrieve_one_stored_key [OF assms(2)] by (rule imageI)
  then have 2: "set (fetched (new_events st st')) \<subseteq> json_url ` fst ` set (papers_dict st')"
    using retrieve_one_fetched_new [OF assms(2)] by (elim disjE conjE) simp_all
  from 1 2 t retrieve_one_distinct [OF assms] show ?thesis
    by (simp add: fetch_gate_def)
qed

lemma retrieve_loop_gate:
  "fetch_gate st \<Longrightarrow> retrieve_loop self w out ids st = (r, st') \<Longrightarrow>
   distinct (fetched (trace st')) \<and> (r = None \<longrightarrow> fetch_gate st')"
proof (induction ids arbitrary: st)
  case Nil
  then show ?case by (simp add: fetch_gate_def)
next
  case (Cons i rest)
  from Cons.prems(2) show ?case
  proof (cases rule: retrieve_loop_Cons_cases)
    case (raised e)
    with retrieve_one_distinct [OF Cons.prems(1) raised(1)] show ?thesis by simp
  next
    case (passed st1)
    from retrieve_one_gate [OF Cons.prems(1) passed(1)] passed(2) show ?thesis
      by (rule Cons.IH)
  qed
qed

lemma retrieve_loop_known_count:
  assumes "retrieve_loop self w out ids st = (r, st')" "k \<in> fst ` set (papers_dict st)"
  shows "fetch_count (trace st') k = fetch_count (trace st) k"
proof -
  have t: "fetched (trace st') = fetched (trace st) @ fetched (new_events st st')"
    using retrieve_loop_extends [OF assms(1)] fetched_append by metis
  have "json_url k \<notin> set (fetched (new_events st st'))"
  proof
    assume "json_url k \<in> set (fetched (new_events st st'))"
    with retrieve_loop_fetched_new [OF assms(1)]
    have "json_url k \<in> json_url ` (set ids - fst ` set (papers_dict st))" by (rule subsetD)
    then have "k \<in> set ids - fst ` set (papers_dict st)"
      by (auto simp only: json_url_inject image_iff)
    with assms(2) show False by simp
  qed
  then have "count_list (fetched (new_events st st')) (json_url k) = 0"
    by (simp add: count_list_0_iff)
  with t show ?thesis by (simp add: fetch_count_def)
qed

lemma retrieve_related_papers_gate:
  assumes "fetch_gate st" "retrieve_related_papers self w paper_id rel out st = (r, st')"
  shows "distinct (fetched (trace st'))" and "r = None \<Longrightarrow> fetch_gate st'"
proof -
  have "distinct (fetched (trace st')) \<and> (r = None \<longrightarrow> fetch_gate st')"
    using assms(2)
  proof (cases rule: retrieve_related_papers_cases)
    case raised
    with assms(1) show ?thesis by (simp add: fetch_gate_def)
  next
    case (looped ids)
    from assms(1) looped(2) show ?thesis by (rule retrieve_loop_gate)
  qed
  then show "distinct (fetched (trace st'))" and "r = None \<Longrightarrow> fetch_gate st'"
    by simp_all
qed

lemma retrieve_related_papers_known_count:
  assumes "retrieve_related_papers self w paper_id rel out st = (r, st')"
    and "k \<in> fst ` set (papers_dict st)"
  shows "fetch_count (trace st') k = fetch_count (trace st) k"
  using assms(1)
proof (cases rule: retrieve_related_papers_cases)
  case raised
  then show ?thesis by simp
next
  case (looped ids)
  from looped(2) assms(2) show ?thesis by (rule retrieve_loop_known_count)
qed

text \<open>
  C2. Take a state in which every request so far was for a key of \<open>papers_dict\<close> and
  no URL was requested twice. After a call of \<open>_retrieve_related_papers\<close> from it,
  whatever the outcome, every identifier has been requested at most once in all, and an
  identifier that was a key before the call has been requested exactly as often as
  before; when the call returns, the state is again of that kind. The state in which
  \<open>get_related_papers\<close> starts is of that kind, with the seeds as keys and no request
  made. A run of \<open>get_related_papers\<close> always ends, with every identifier requested
  at most once and no seed requested.
\<close>

theorem fetched_at_most_once:
  "(fetch_gate st \<longrightarrow> retrieve_related_papers self w paper_id rel out st = (r, st') \<longrightarrow>
        (\<forall>i. fetch_count (trace st') i \<le> 1)
      \<and> (\<forall>i. i \<in> fst ` set (papers_dict st) \<longrightarrow>
             fetch_count (trace st') i = fetch_count (trace st) i)
      \<and> (r = None \<longrightarrow> fetch_gate st'))
   \<and> fetch_gate \<lparr>papers_dict = papers, paper_id_queue = map fst papers,
        paper_visited_set = {}, trace = []\<rparr>
   \<and> (\<exists>r st'. get_related_papers self w papers out_dir_name = Some (r, st')
        \<and> (\<forall>i. fetch_count (trace st') i \<le> 1)
        \<and> (\<forall>i. i \<in> fst ` set papers \<longrightarrow> fetch_count (trace st') i = 0))"
proof (intro conjI impI allI)
  show "fetch_gate \<lparr>papers_dict = papers, paper_id_queue = map fst papers,
        paper_visited_set = {}, trace = []\<rparr>"
    by (simp add: fetch_gate_def)
  from get_related_papers_total [of self w papers out_dir_name]
  obtain r0 st0 where "get_related_papers self w papers out_dir_name = Some (r0, st0)"
    "trace st0 = []" by (elim exE conjE)
  then show "\<exists>r st'. get_related_papers self w papers out_dir_name = Some (r, st')
        \<and> (\<forall>i. fetch_count (trace st') i \<le> 1)
        \<and> (\<forall>i. i \<in> fst ` set papers \<longrightarrow> fetch_count (trace st') i = 0)"
    by (intro exI [of _ r0] exI [of _ st0]) (simp add: fetch_count_def)
next
  assume g: "fetch_gate st"
    and a: "retrieve_related_papers self w paper_id rel out st = (r, st')"
  show "fetch_count (trace st') i \<le> 1" for i
    unfolding fetch_count_def
    by (intro count_list_distinct retrieve_related_papers_gate(1) [OF g a])
  show "fetch_count (trace st') i = fetch_count (trace st) i"
    if "i \<in> fst ` set (papers_dict st)" for i
    by (rule retrieve_related_papers_known_count [OF a that])
  show "fetch_gate st'" if "r = None"
    by (rule retrieve_related_papers_gate(2) [OF g a that])
qed

theorem fetched_at_most_once_witness:
  "fetch_gate visiting_P
   \<and> retrieve_related_papers default_scrapper chain ''P'' References (Some ''out'') visiting_P
       = (None, after_Q)
   \<and> ''P'' \<in> fst ` set (papers_dict visiting_P)
   \<and> fetch_count (trace after_Q) ''Q'' = 1
   \<and> fetch_count (trace after_Q) ''P'' = 0
   \<and> fetch_gate after_Q"
proof -
  have g: "fetch_gate visiting_P"
    by (simp add: fetch_gate_def visiting_P_def)
  have p: "''P'' \<in> fst ` set (papers_dict visiting_P)"
    by (simp add: visiting_P_def)
  note t = fetched_at_most_once [where st = visiting_P and self = default_scrapper
      and w = chain and paper_id = "''P''" and rel = References and out = "Some ''out''"
      and r = None and st' = after_Q, THEN conjunct1, THEN mp, THEN mp, OF g expand_P]
  have "fetch_count (trace after_Q) ''P'' = fetch_count (trace visiting_P) ''P''"
    using t p by blast
  then have c: "fetch_count (trace after_Q) ''P'' = 0"
    by (simp add: visiting_P_def fetch_count_def)
  have d: "fetch_gate after_Q"
    using t by blast
  have e: "fetch_count (trace after_Q) ''Q'' = 1"
    by (simp add: after_Q_def fetch_count_def)
  show ?thesis
    by (intro conjI g expand_P p c d e)
qed

subsection \<open>Exceptions\<close>







end
